theory Spec2Isabelle
  imports Main "HOL-Library.Multiset"
begin

section \<open>Values and configuration (index.js, lines 13-44)\<close>

text \<open>
  The objects the processor builds and stores are plain JavaScript object literals; they are
  modelled as JSON values whose objects are association lists, so that the property names
  are data and the insertion order of the literal is kept.
\<close>

datatype js =
    JNull
  | JBool bool
  | JNum int
  | JStr string
  | JArr "js list"
  | JObj "(string \<times> js) list"

text \<open>Property access \<open>o.k\<close>; a missing property (JavaScript \<open>undefined\<close>) is \<open>None\<close>.\<close>

fun js_get :: "js \<Rightarrow> string \<Rightarrow> js option" where
  "js_get (JObj kvs) k = map_of kvs k"
| "js_get _ k = None"

fun js_keys :: "js \<Rightarrow> string list" where
  "js_keys (JObj kvs) = map fst kvs"
| "js_keys _ = []"

text \<open>JavaScript truthiness, as used by \<open>if (result.success)\<close> and by \<open>||\<close>.\<close>

fun truthy :: "js option \<Rightarrow> bool" where
  "truthy None = False"
| "truthy (Some JNull) = False"
| "truthy (Some (JBool b)) = b"
| "truthy (Some (JNum n)) = (n \<noteq> 0)"
| "truthy (Some (JStr s)) = (s \<noteq> [])"
| "truthy (Some (JArr xs)) = True"
| "truthy (Some (JObj kvs)) = True"

subsection \<open>\<open>parseInt\<close> and the \<open>||\<close> defaults\<close>

text \<open>
  \<open>parseInt(s)\<close> without a radix: leading (ASCII) white space is skipped, one sign is
  read, a \<open>0x\<close>/\<open>0X\<close> prefix selects radix 16, and the longest prefix of digits of the
  radix is the value. With no digit, or for \<open>undefined\<close>, the result is \<open>NaN\<close>, here
  \<open>None\<close>. The result may be negative.
\<close>

definition is_ws :: "char \<Rightarrow> bool" where
  "is_ws c = (c \<in> set [CHR '' '', CHR 0x09, CHR 0x0A, CHR 0x0B, CHR 0x0C, CHR 0x0D])"

definition digit_val :: "char \<Rightarrow> nat option" where
  "digit_val c =
     (let n = (of_char c :: nat) in
      if 48 \<le> n \<and> n \<le> 57 then Some (n - 48)
      else if 97 \<le> n \<and> n \<le> 102 then Some (n - 87)
      else if 65 \<le> n \<and> n \<le> 70 then Some (n - 55)
      else None)"

definition is_digit :: "nat \<Rightarrow> char \<Rightarrow> bool" where
  "is_digit radix c = (case digit_val c of None \<Rightarrow> False | Some d \<Rightarrow> d < radix)"

definition digits_value :: "nat \<Rightarrow> string \<Rightarrow> nat" where
  "digits_value radix ds = foldl (\<lambda>acc c. acc * radix + the (digit_val c)) 0 ds"

definition parse_magnitude :: "string \<Rightarrow> nat option" where
  "parse_magnitude s =
     (let hex = (take 2 s = ''0x'' \<or> take 2 s = ''0X'');
          radix = (if hex then 16 else 10);
          body = (if hex then drop 2 s else s);
          ds = takeWhile (is_digit radix) body
      in if ds = [] then None else Some (digits_value radix ds))"

definition parseInt :: "string option \<Rightarrow> int option" where
  "parseInt v =
     (case v of
        None \<Rightarrow> None
      | Some s \<Rightarrow>
          (case dropWhile is_ws s of
             [] \<Rightarrow> None
           | c # cs \<Rightarrow>
               if c = CHR ''-'' then map_option (\<lambda>n. - int n) (parse_magnitude cs)
               else if c = CHR ''+'' then map_option int (parse_magnitude cs)
               else map_option int (parse_magnitude (c # cs))))"

text \<open>\<open>a || d\<close> on a number: \<open>NaN\<close> and \<open>0\<close> are falsy.\<close>

definition or_num :: "int option \<Rightarrow> int \<Rightarrow> int" where
  "or_num a d = (case a of None \<Rightarrow> d | Some n \<Rightarrow> if n = 0 then d else n)"

text \<open>\<open>a || d\<close> on an environment string: \<open>undefined\<close> and the empty string are falsy.\<close>

definition or_str :: "string option \<Rightarrow> string \<Rightarrow> string" where
  "or_str a d = (case a of None \<Rightarrow> d | Some s \<Rightarrow> if s = [] then d else s)"

subsection \<open>\<open>CONFIG\<close>\<close>

record config =
  apiKey :: "string option"
  model :: string
  imagesDir :: string
  outputFile :: string
  prompt :: string
  maxTokens :: int
  concurrency :: int
  batchDelay :: int
  imageExtensions :: "string list"
  maxRetries :: nat
  retryDelay :: nat

text \<open>
  \<open>process.env\<close> is a map from variable names to strings. The three numeric options come
  from \<open>parseInt\<close> and are integers; \<open>maxRetries\<close> and \<open>retryDelay\<close> are the literals of
  the source.
\<close>

definition CONFIG :: "(string \<rightharpoonup> string) \<Rightarrow> config" where
  "CONFIG env =
     \<lparr> apiKey = env ''OPENAI_API_KEY'',
       model = or_str (env ''MODEL'') ''gpt-4o'',
       imagesDir = or_str (env ''IMAGES_DIR'') ''./images'',
       outputFile = or_str (env ''OUTPUT_FILE'') ''./results.json'',
       prompt = or_str (env ''PROMPT'')
         ''Describe this image in detail, including any text, objects, people, and activities visible.'',
       maxTokens = or_num (parseInt (env ''MAX_TOKENS'')) 500,
       concurrency = or_num (parseInt (env ''CONCURRENCY'')) 5,
       batchDelay = or_num (parseInt (env ''BATCH_DELAY'')) 1000,
       imageExtensions = [''.jpg'', ''.jpeg'', ''.png'', ''.gif'', ''.webp''],
       maxRetries = 3,
       retryDelay = 2000 \<rparr>"

section \<open>The platform and the remote service\<close>

text \<open>
  Everything the processor asks of Node.js, the file system, the clock and the remote
  service is a field of \<open>world\<close>. A call that can throw returns \<open>Inl message\<close>.
  \<open>newOpenAI key\<close> is the constructor of the client library called with
  \<open>{ apiKey: key }\<close>: \<open>Some message\<close> when it throws, \<open>None\<close> when it returns the client.
  File reads, remote calls and timestamps are indexed by the image path and by the
  \<open>retryCount\<close> of the attempt that makes them, so an item may fail on one attempt and
  succeed on the next. \<open>finishTime\<close> orders the promises of one batch: the one with the
  smaller value settles first (ties settle in input order).
\<close>

record request =
  req_model :: string
  req_text :: string
  req_image_url :: string
  req_max_tokens :: int

text \<open>
  The response of \<open>chat.completions.create\<close>: \<open>choices\<close> lists
  \<open>choices[k].message.content\<close>; \<open>resp_model\<close> and \<open>usage\<close> are \<open>response.model\<close> and
  \<open>response.usage\<close>, both copied into the result as they are. All three are JSON values
  (\<open>usage\<close> may be \<open>null\<close>).
\<close>

record response =
  choices :: "js list"
  resp_model :: js
  usage :: js

record world =
  environ :: "string \<rightharpoonup> string"
  newOpenAI :: "string option \<Rightarrow> string option"
  readdir :: "string \<Rightarrow> string + string list"
  readFile :: "string \<Rightarrow> nat \<Rightarrow> string + string"
  base64 :: "string \<Rightarrow> string"
  create :: "string \<Rightarrow> nat \<Rightarrow> request \<Rightarrow> string + response"
  now :: "string \<Rightarrow> nat \<Rightarrow> string"
  finishTime :: "string \<Rightarrow> nat"
  savedAt :: string
  writeFile :: "string \<Rightarrow> string \<Rightarrow> string option"
  path_basename :: "string \<Rightarrow> string"
  path_extname :: "string \<Rightarrow> string"
  path_join :: "string \<Rightarrow> string \<Rightarrow> string"

text \<open>\<open>String.prototype.toLowerCase\<close> on the ASCII letters.\<close>

definition toLowerCase :: "string \<Rightarrow> string" where
  "toLowerCase s =
     map (\<lambda>c. let n = (of_char c :: nat) in
                if 65 \<le> n \<and> n \<le> 90 then char_of (n + 32) else c) s"

text \<open>
  \<open>Array.prototype.slice(start, end)\<close>: a negative index counts from the end of the
  array, and both indices are clamped to the array.
\<close>

definition js_slice :: "'a list \<Rightarrow> int \<Rightarrow> int \<Rightarrow> 'a list" where
  "js_slice xs start end =
     (let n = int (length xs);
          k = (if start < 0 then max (n + start) 0 else min start n);
          final = (if end < 0 then max (n + end) 0 else min end n)
      in take (nat (final - k)) (drop (nat k) xs))"

section \<open>The processor (index.js, lines 46-269)\<close>

text \<open>
  What the run does to the outside is kept as a list of events, in the order the model
  performs them. \<open>Dispatch\<close> marks the call \<open>this.analyzeImage(imagePath)\<close> made by the
  callback of \<open>imagePaths.map\<close>, \<open>Settled\<close> the point where that call's promise has
  resolved and the callback continues. Console lines are named after their call site;
  the percentage of the progress line is formatted floating point and is left out.
\<close>

datatype line =
    Starting
  | ReadingFrom string
  | NoImagesFound
  | Found nat
  | UsingModel string
  | PromptIs string
  | ConcurrencyIs int
  | Retrying string nat nat
  | Processed nat nat string
  | ItemError "js option"
  | SavedTo string
  | Summary nat nat nat "int option"
  | FatalError string

datatype event =
    Console line
  | RetryDelay nat
  | BatchDelay int
  | Dispatch string
  | Settled string
  | ReadFile string
  | RemoteCall string request
  | WriteFile string string
  | Exit nat

record processor =
  config :: config
  results :: "js list"
  errors :: "js list"
  processedCount :: nat
  totalCount :: nat
  trace :: "event list"

text \<open>
  The fields of a processor as the constructor leaves them (lines 48 and 50-53), with
  nothing done to the outside yet.
\<close>

definition constructed :: "config \<Rightarrow> processor" where
  "constructed cfg =
     \<lparr> config = cfg, results = [], errors = [], processedCount = 0, totalCount = 0,
       trace = [] \<rparr>"

text \<open>
  The constructor. Line 49, \<open>this.openai = new OpenAI({ apiKey: config.apiKey })\<close>, calls
  the client library: \<open>newOpenAI\<close> of the world tells whether that call throws for the
  given key, and with which message. When it throws, the constructor throws with it and
  no processor exists (\<open>Inl message\<close>); otherwise the remaining fields are set. The
  client itself is the \<open>create\<close> of the world.
\<close>

definition ImageBatchProcessor :: "world \<Rightarrow> config \<Rightarrow> string + processor" where
  "ImageBatchProcessor W cfg =
     (case newOpenAI W (apiKey cfg) of
        Some message \<Rightarrow> Inl message
      | None \<Rightarrow> Inr (constructed cfg))"

definition emit :: "event list \<Rightarrow> processor \<Rightarrow> processor" where
  "emit es P = P\<lparr> trace := trace P @ es \<rparr>"

subsection \<open>\<open>imageToBase64\<close>\<close>

definition mimeTypes :: "(string \<times> string) list" where
  "mimeTypes =
     [(''.jpg'', ''image/jpeg''), (''.jpeg'', ''image/jpeg''), (''.png'', ''image/png''),
      (''.gif'', ''image/gif''), (''.webp'', ''image/webp'')]"

definition imageToBase64 :: "world \<Rightarrow> string \<Rightarrow> nat \<Rightarrow> string + string" where
  "imageToBase64 W imagePath k =
     (case readFile W imagePath k of
        Inl message \<Rightarrow> Inl message
      | Inr imageBuffer \<Rightarrow>
          let base64Image = base64 W imageBuffer;
              ext = toLowerCase (path_extname W imagePath);
              mimeType = (case map_of mimeTypes ext of Some m \<Rightarrow> m | None \<Rightarrow> ''image/jpeg'')
          in Inr (''data:'' @ mimeType @ '';base64,'' @ base64Image))"

subsection \<open>\<open>analyzeImage\<close>\<close>

definition success_result :: "world \<Rightarrow> string \<Rightarrow> nat \<Rightarrow> response \<Rightarrow> js \<Rightarrow> js" where
  "success_result W imagePath k r content =
     JObj [(''image'', JStr (path_basename W imagePath)),
           (''path'', JStr imagePath),
           (''success'', JBool True),
           (''description'', content),
           (''model'', resp_model r),
           (''usage'', usage r),
           (''timestamp'', JStr (now W imagePath k))]"

definition failure_result :: "world \<Rightarrow> string \<Rightarrow> nat \<Rightarrow> string \<Rightarrow> js" where
  "failure_result W imagePath k message =
     JObj [(''image'', JStr (path_basename W imagePath)),
           (''path'', JStr imagePath),
           (''success'', JBool False),
           (''error'', JStr message),
           (''timestamp'', JStr (now W imagePath k))]"

definition make_request :: "config \<Rightarrow> string \<Rightarrow> request" where
  "make_request cfg base64Image =
     \<lparr> req_model = model cfg, req_text = prompt cfg, req_image_url = base64Image,
       req_max_tokens = maxTokens cfg \<rparr>"

text \<open>The message of the \<open>TypeError\<close> that reading \<open>choices[0].message\<close> of an empty list throws.\<close>

definition no_choice_message :: string where
  "no_choice_message = ''Cannot read properties of undefined''"

text \<open>
  The \<open>try\<close> block of \<open>analyzeImage\<close> at retry count \<open>k\<close>: the result object, or the
  message of the error it throws, with the file read and the remote call it made.
\<close>

definition try_block :: "world \<Rightarrow> config \<Rightarrow> string \<Rightarrow> nat \<Rightarrow> (string + js) \<times> event list" where
  "try_block W cfg imagePath k =
     (case imageToBase64 W imagePath k of
        Inl message \<Rightarrow> (Inl message, [ReadFile imagePath])
      | Inr base64Image \<Rightarrow>
          let req = make_request cfg base64Image;
              evs = [ReadFile imagePath, RemoteCall imagePath req]
          in (case create W imagePath k req of
                Inl message \<Rightarrow> (Inl message, evs)
              | Inr r \<Rightarrow>
                  (case choices r of
                     [] \<Rightarrow> (Inl no_choice_message, evs)
                   | content # _ \<Rightarrow> (Inr (success_result W imagePath k r content), evs))))"

function analyzeImage :: "world \<Rightarrow> config \<Rightarrow> string \<Rightarrow> nat \<Rightarrow> js \<times> event list" where
  "analyzeImage W cfg imagePath retryCount =
     (case try_block W cfg imagePath retryCount of
        (Inr result, evs) \<Rightarrow> (result, evs)
      | (Inl message, evs) \<Rightarrow>
          if retryCount < maxRetries cfg then
            (let (result, rest) = analyzeImage W cfg imagePath (retryCount + 1)
             in (result,
                 evs @ [Console (Retrying (path_basename W imagePath) (retryCount + 1) (maxRetries cfg)),
                        RetryDelay (retryDelay cfg)] @ rest))
          else (failure_result W imagePath retryCount message, evs))"
  by pat_completeness auto
termination
  by (relation "measure (\<lambda>(W, cfg, imagePath, retryCount). maxRetries cfg - retryCount)") auto

declare analyzeImage.simps [simp del]

subsection \<open>\<open>getImageFiles\<close>\<close>

definition getImageFiles :: "world \<Rightarrow> config \<Rightarrow> string + string list" where
  "getImageFiles W cfg =
     (case readdir W (imagesDir cfg) of
        Inl message \<Rightarrow> Inl (''Failed to read images directory: '' @ message)
      | Inr files \<Rightarrow>
          let imageFiles =
                filter (\<lambda>file. toLowerCase (path_extname W file) \<in> set (imageExtensions cfg)) files
          in Inr (map (path_join W (imagesDir cfg)) imageFiles))"

subsection \<open>\<open>processBatch\<close>\<close>

text \<open>
  The part of the \<open>map\<close> callback after \<open>await this.analyzeImage(imagePath)\<close>: it runs
  once for each settled result, without interruption.
\<close>

definition settle :: "world \<Rightarrow> string \<Rightarrow> js \<Rightarrow> processor \<Rightarrow> processor" where
  "settle W imagePath result P =
     (let P1 = P\<lparr> processedCount := processedCount P + 1 \<rparr>;
          P2 = emit [Settled imagePath,
                     Console (Processed (processedCount P1) (totalCount P1)
                                (path_basename W imagePath))] P1
      in if truthy (js_get result ''success'')
         then P2\<lparr> results := results P2 @ [result] \<rparr>
         else emit [Console (ItemError (js_get result ''error''))]
                (P2\<lparr> errors := errors P2 @ [result] \<rparr>))"

text \<open>
  \<open>imagePaths.map\<close> calls \<open>analyzeImage\<close> for every path of the batch before any of the
  promises settles, and \<open>Promise.all\<close> waits for all of them. The attempts of different
  items of a batch interleave in time; the model keeps the events of one item together,
  directly before its settlement, and lets the world choose the order of the settlements.
\<close>

definition settleOrder :: "world \<Rightarrow> string list \<Rightarrow> string list" where
  "settleOrder W imagePaths = sort_key (finishTime W) imagePaths"

definition run_item :: "world \<Rightarrow> string \<Rightarrow> processor \<Rightarrow> processor" where
  "run_item W imagePath P =
     (let (result, evs) = analyzeImage W (config P) imagePath 0
      in settle W imagePath result (emit evs P))"

definition processBatch :: "world \<Rightarrow> string list \<Rightarrow> processor \<Rightarrow> processor" where
  "processBatch W imagePaths P =
     fold (run_item W) (settleOrder W imagePaths) (emit (map Dispatch imagePaths) P)"

subsection \<open>\<open>JSON.stringify(output, null, 2)\<close>\<close>

text \<open>
  The document \<open>JSON.stringify\<close> prints for a value with an indentation of two spaces:
  an empty array or object on one line, the members of any other one per line. Strings
  are byte strings (UTF-8); the quote, the backslash and the control characters are
  escaped. Numbers are integers and print all their digits, as JavaScript does below
  \<open>10^21\<close>.
\<close>

definition digit_char :: "nat \<Rightarrow> char" where
  "digit_char d = char_of (48 + d)"

function show_nat :: "nat \<Rightarrow> string" where
  "show_nat n = (if n < 10 then [digit_char n] else show_nat (n div 10) @ [digit_char (n mod 10)])"
  by pat_completeness auto
termination
  by (relation "measure id") auto

declare show_nat.simps [simp del]

definition show_int :: "int \<Rightarrow> string" where
  "show_int i = (if i < 0 then CHR ''-'' # show_nat (nat (- i)) else show_nat (nat i))"

definition hex_char :: "nat \<Rightarrow> char" where
  "hex_char d = (if d < 10 then char_of (48 + d) else char_of (87 + d))"

definition dquote :: char where
  "dquote = CHR 0x22"

definition backslash :: char where
  "backslash = CHR 0x5C"

definition escape_char :: "char \<Rightarrow> string" where
  "escape_char c =
     (let n = (of_char c :: nat) in
      if c = dquote then [backslash, dquote]
      else if c = backslash then [backslash, backslash]
      else if n = 8 then [backslash, CHR ''b'']
      else if n = 12 then [backslash, CHR ''f'']
      else if n = 10 then [backslash, CHR ''n'']
      else if n = 13 then [backslash, CHR ''r'']
      else if n = 9 then [backslash, CHR ''t'']
      else if n < 32 then [backslash, CHR ''u'', CHR ''0'', CHR ''0'', hex_char (n div 16), hex_char (n mod 16)]
      else [c])"

definition quote :: "string \<Rightarrow> string" where
  "quote s = dquote # concat (map escape_char s) @ [dquote]"

definition newline :: char where
  "newline = CHR 0x0A"

definition spaces :: "nat \<Rightarrow> string" where
  "spaces n = replicate n CHR '' ''"

text \<open>The members of an array or object, one per line, separated by commas.\<close>

fun join_members :: "string list \<Rightarrow> string" where
  "join_members [] = []"
| "join_members [m] = m"
| "join_members (m # ms) = m @ CHR '','' # newline # join_members ms"

fun stringify_at :: "nat \<Rightarrow> js \<Rightarrow> string" where
  "stringify_at ind JNull = ''null''"
| "stringify_at ind (JBool b) = (if b then ''true'' else ''false'')"
| "stringify_at ind (JNum i) = show_int i"
| "stringify_at ind (JStr s) = quote s"
| "stringify_at ind (JArr xs) =
     (if xs = [] then ''[]''
      else CHR ''['' # newline #
           join_members (map (\<lambda>x. spaces (ind + 2) @ stringify_at (ind + 2) x) xs)
           @ newline # spaces ind @ '']'')"
| "stringify_at ind (JObj kvs) =
     (if kvs = [] then ''{}''
      else CHR ''{'' # newline #
           join_members
             (map (\<lambda>kv. spaces (ind + 2) @ quote (fst kv) @ '': '' @ stringify_at (ind + 2) (snd kv)) kvs)
           @ newline # spaces ind @ ''}'')"

definition JSON_stringify :: "js \<Rightarrow> string" where
  "JSON_stringify v = stringify_at 0 v"

subsection \<open>\<open>JSON.parse\<close>\<close>

text \<open>
  \<open>JSON.parse\<close>, as the sibling script \<open>extract-descriptions.js\<close> applies it to a saved
  document, for documents whose numbers are integers: white space between tokens is
  skipped; a string literal may not hold a raw control character, and its escapes are
  decoded (\<open>\\uXXXX\<close> to the UTF-8 bytes of the code point); a number with a leading zero
  is refused, and so is one with a fraction or an exponent, which the values of this
  model do not hold. The members of an object are kept in the order of the document.
  The comparisons of lengths in \<open>parse_elements\<close> and \<open>parse_members\<close> always hold; they
  make the recursion visibly descend.
\<close>

definition is_json_ws :: "char \<Rightarrow> bool" where
  "is_json_ws c = (c = CHR '' '' \<or> c = newline \<or> c = CHR 0x0D \<or> c = CHR 0x09)"

definition skip_ws :: "string \<Rightarrow> string" where
  "skip_ws s = dropWhile is_json_ws s"

definition is_dec :: "char \<Rightarrow> bool" where
  "is_dec c = (48 \<le> (of_char c :: nat) \<and> (of_char c :: nat) \<le> 57)"

definition dec_value :: "string \<Rightarrow> nat" where
  "dec_value ds = foldl (\<lambda>acc c. acc * 10 + ((of_char c :: nat) - 48)) 0 ds"

definition parse_number :: "string \<Rightarrow> (js \<times> string) option" where
  "parse_number s =
     (let neg = (s \<noteq> [] \<and> hd s = CHR ''-'');
          body = (if neg then tl s else s);
          ds = takeWhile is_dec body;
          r = dropWhile is_dec body
      in if ds = [] then None
         else if hd ds = CHR ''0'' \<and> 1 < length ds then None
         else if r \<noteq> [] \<and> (hd r = CHR ''.'' \<or> hd r = CHR ''e'' \<or> hd r = CHR ''E'') then None
         else Some (JNum (if neg then - int (dec_value ds) else int (dec_value ds)), r))"

definition hex_value :: "char \<Rightarrow> nat option" where
  "hex_value c =
     (let n = (of_char c :: nat) in
      if 48 \<le> n \<and> n \<le> 57 then Some (n - 48)
      else if 97 \<le> n \<and> n \<le> 102 then Some (n - 87)
      else if 65 \<le> n \<and> n \<le> 70 then Some (n - 55)
      else None)"

text \<open>The UTF-8 bytes of a code point of the basic plane; surrogate halves are refused.\<close>

definition utf8 :: "nat \<Rightarrow> string option" where
  "utf8 cp =
     (if cp < 128 then Some [char_of cp]
      else if cp < 2048 then Some [char_of (192 + cp div 64), char_of (128 + cp mod 64)]
      else if 55296 \<le> cp \<and> cp < 57344 then None
      else Some [char_of (224 + cp div 4096), char_of (128 + (cp div 64) mod 64),
                 char_of (128 + cp mod 64)])"

definition unicode_escape :: "string \<Rightarrow> string option" where
  "unicode_escape hs =
     (case map hex_value hs of
        [Some a, Some b, Some c, Some d] \<Rightarrow> utf8 (((a * 16 + b) * 16 + c) * 16 + d)
      | _ \<Rightarrow> None)"

definition simple_escape :: "char \<Rightarrow> char option" where
  "simple_escape e =
     (if e = dquote then Some dquote
      else if e = backslash then Some backslash
      else if e = CHR ''/'' then Some CHR ''/''
      else if e = CHR ''b'' then Some (CHR 0x08)
      else if e = CHR ''f'' then Some (CHR 0x0C)
      else if e = CHR ''n'' then Some (CHR 0x0A)
      else if e = CHR ''r'' then Some (CHR 0x0D)
      else if e = CHR ''t'' then Some (CHR 0x09)
      else None)"

text \<open>The characters of a string literal, after its opening quote.\<close>

function parse_chars :: "string \<Rightarrow> (string \<times> string) option" where
  "parse_chars [] = None"
| "parse_chars (c # r) =
     (if c = dquote then Some ([], r)
      else if c = backslash then
        (case r of
           [] \<Rightarrow> None
         | e # r' \<Rightarrow>
             if e = CHR ''u'' then
               (case unicode_escape (take 4 r') of
                  None \<Rightarrow> None
                | Some bytes \<Rightarrow>
                    (case parse_chars (drop 4 r') of
                       None \<Rightarrow> None
                     | Some (str, rest) \<Rightarrow> Some (bytes @ str, rest)))
             else
               (case simple_escape e of
                  None \<Rightarrow> None
                | Some d \<Rightarrow>
                    (case parse_chars r' of
                       None \<Rightarrow> None
                     | Some (str, rest) \<Rightarrow> Some (d # str, rest))))
      else if (of_char c :: nat) < 32 then None
      else (case parse_chars r of
              None \<Rightarrow> None
            | Some (str, rest) \<Rightarrow> Some (c # str, rest)))"
  by pat_completeness auto

termination
  by (relation "measure length") auto

declare parse_chars.simps [simp del]

definition expect :: "string \<Rightarrow> string \<Rightarrow> string option" where
  "expect lit s = (if take (length lit) s = lit then Some (drop (length lit) s) else None)"

function parse_value :: "string \<Rightarrow> (js \<times> string) option"
  and parse_elements :: "string \<Rightarrow> (js list \<times> string) option"
  and parse_members :: "string \<Rightarrow> ((string \<times> js) list \<times> string) option"
where
  "parse_value s =
     (case skip_ws s of
        [] \<Rightarrow> None
      | c # r \<Rightarrow>
          if c = CHR ''n'' then map_option (Pair JNull) (expect ''ull'' r)
          else if c = CHR ''t'' then map_option (Pair (JBool True)) (expect ''rue'' r)
          else if c = CHR ''f'' then map_option (Pair (JBool False)) (expect ''alse'' r)
          else if c = dquote then map_option (\<lambda>(str, rest). (JStr str, rest)) (parse_chars r)
          else if c = CHR ''['' then
            (case skip_ws r of
               [] \<Rightarrow> None
             | d # r' \<Rightarrow>
                 if d = CHR '']'' then Some (JArr [], r')
                 else map_option (\<lambda>(xs, rest). (JArr xs, rest)) (parse_elements r))
          else if c = CHR ''{'' then
            (case skip_ws r of
               [] \<Rightarrow> None
             | d # r' \<Rightarrow>
                 if d = CHR ''}'' then Some (JObj [], r')
                 else map_option (\<lambda>(kvs, rest). (JObj kvs, rest)) (parse_members r))
          else parse_number (c # r))"
| "parse_elements s =
     (case parse_value s of
        None \<Rightarrow> None
      | Some (x, r) \<Rightarrow>
          (case skip_ws r of
             [] \<Rightarrow> None
           | d # r' \<Rightarrow>
               if d = CHR '']'' then Some ([x], r')
               else if d = CHR '','' \<and> length r' < length s then
                 (case parse_elements r' of
                    None \<Rightarrow> None
                  | Some (xs, rest) \<Rightarrow> Some (x # xs, rest))
               else None))"
| "parse_members s =
     (case skip_ws s of
        [] \<Rightarrow> None
      | q # r0 \<Rightarrow>
          if q \<noteq> dquote then None
          else
            (case parse_chars r0 of
               None \<Rightarrow> None
             | Some (k, r1) \<Rightarrow>
                 (case skip_ws r1 of
                    [] \<Rightarrow> None
                  | colon # r2 \<Rightarrow>
                      if colon \<noteq> CHR '':'' \<or> \<not> length r2 < length s then None
                      else
                        (case parse_value r2 of
                           None \<Rightarrow> None
                         | Some (x, r3) \<Rightarrow>
                             (case skip_ws r3 of
                                [] \<Rightarrow> None
                              | d # r4 \<Rightarrow>
                                  if d = CHR ''}'' then Some ([(k, x)], r4)
                                  else if d = CHR '','' \<and> length r4 < length s then
                                    (case parse_members r4 of
                                       None \<Rightarrow> None
                                     | Some (kvs, rest) \<Rightarrow> Some ((k, x) # kvs, rest))
                                  else None)))))"
  by pat_completeness auto

termination
proof (relation "measure (\<lambda>x. case x of Inl s \<Rightarrow> 2 * length s
                                 | Inr (Inl s) \<Rightarrow> 2 * length s + 1
                                 | Inr (Inr s) \<Rightarrow> 2 * length s + 1)", goal_cases)
  case 1
  show ?case by simp
next
  case (2 s c r d r')
  have "length (skip_ws s) \<le> length s" by (simp add: skip_ws_def length_dropWhile_le)
  with 2 show ?case by simp
next
  case (3 s c r d r')
  have "length (skip_ws s) \<le> length s" by (simp add: skip_ws_def length_dropWhile_le)
  with 3 show ?case by simp
next
  case 4
  then show ?case by simp
next
  case 5
  then show ?case by simp
next
  case 6
  then show ?case by simp
next
  case 7
  then show ?case by simp
qed

declare parse_value.simps [simp del] parse_elements.simps [simp del] parse_members.simps [simp del]

definition JSON_parse :: "string \<Rightarrow> js option" where
  "JSON_parse s =
     (case parse_value s of
        None \<Rightarrow> None
      | Some (v, rest) \<Rightarrow> if skip_ws rest = [] then Some v else None)"

subsection \<open>\<open>saveResults\<close> and \<open>printSummary\<close>\<close>

text \<open>The object \<open>output\<close> that \<open>saveResults\<close> builds.\<close>

definition output_of :: "world \<Rightarrow> processor \<Rightarrow> js" where
  "output_of W P =
     JObj [(''metadata'',
              JObj [(''processedAt'', JStr (savedAt W)),
                    (''totalImages'', JNum (int (totalCount P))),
                    (''successfulCount'', JNum (int (length (results P)))),
                    (''errorCount'', JNum (int (length (errors P)))),
                    (''model'', JStr (model (config P))),
                    (''prompt'', JStr (prompt (config P)))]),
           (''results'', JArr (results P)),
           (''errors'', JArr (errors P))]"

definition saveResults :: "world \<Rightarrow> processor \<Rightarrow> (string + unit) \<times> processor" where
  "saveResults W P =
     (let output = output_of W P;
          document = JSON_stringify output
      in (case writeFile W (outputFile (config P)) document of
            Some message \<Rightarrow> (Inl message, P)
          | None \<Rightarrow>
              (Inr (), emit [WriteFile (outputFile (config P)) document,
                             Console (SavedTo (outputFile (config P)))] P)))"

text \<open>\<open>r.usage?.total_tokens || 0\<close>, for a numeric token count.\<close>

definition total_tokens_of :: "js \<Rightarrow> int" where
  "total_tokens_of r =
     (case js_get r ''usage'' of
        None \<Rightarrow> 0
      | Some u \<Rightarrow> (case js_get u ''total_tokens'' of Some (JNum n) \<Rightarrow> n | _ \<Rightarrow> 0))"

definition printSummary :: "processor \<Rightarrow> processor" where
  "printSummary P =
     emit [Console (Summary (totalCount P) (length (results P)) (length (errors P))
                      (if length (results P) > 0
                       then Some (foldl (\<lambda>sum r. sum + total_tokens_of r) 0 (results P))
                       else None))] P"

subsection \<open>\<open>process\<close> and \<open>main\<close>\<close>

text \<open>The body of the \<open>for\<close> loop of \<open>process\<close>, at loop variable \<open>i\<close>.\<close>

definition loop_body :: "world \<Rightarrow> string list \<Rightarrow> int \<Rightarrow> processor \<Rightarrow> processor" where
  "loop_body W imageFiles i P =
     (let batch = js_slice imageFiles i (i + concurrency (config P));
          P1 = processBatch W batch P
      in if i + concurrency (config P1) < int (length imageFiles)
         then emit [BatchDelay (batchDelay (config P1))] P1
         else P1)"

text \<open>
  The \<open>for\<close> loop. Nothing in the source bounds the number of its iterations (the
  increment \<open>this.config.concurrency\<close> may be zero or negative), so a run that never
  leaves the loop is the value \<open>None\<close>.
\<close>

partial_function (option) batch_loop :: "world \<Rightarrow> string list \<Rightarrow> int \<Rightarrow> processor \<Rightarrow> processor option" where
  "batch_loop W imageFiles i P =
     (if i < int (length imageFiles)
      then (let P1 = loop_body W imageFiles i P
            in batch_loop W imageFiles (i + concurrency (config P1)) P1)
      else Some P)"

declare batch_loop.simps [code]

text \<open>\<open>!this.config.apiKey\<close>: the key is \<open>undefined\<close> or the empty string.\<close>

definition key_missing :: "string option \<Rightarrow> bool" where
  "key_missing k = (case k of None \<Rightarrow> True | Some s \<Rightarrow> s = [])"

text \<open>
  \<open>process\<close> returns \<open>Inl message\<close> when it throws \<open>Error(message)\<close>, with the processor
  as it stands then.
\<close>

definition process :: "world \<Rightarrow> processor \<Rightarrow> ((string + unit) \<times> processor) option" where
  "process W P0 =
     (let P1 = emit [Console Starting] P0 in
      if key_missing (apiKey (config P1))
      then Some (Inl ''OPENAI_API_KEY is not set in environment variables'', P1)
      else
        (let P2 = emit [Console (ReadingFrom (imagesDir (config P1)))] P1 in
         (case getImageFiles W (config P2) of
            Inl message \<Rightarrow> Some (Inl message, P2)
          | Inr imageFiles \<Rightarrow>
              (let P3 = P2\<lparr> totalCount := length imageFiles \<rparr> in
               if totalCount P3 = 0
               then Some (Inr (), emit [Console NoImagesFound] P3)
               else
                 (let P4 = emit [Console (Found (totalCount P3)),
                                 Console (UsingModel (model (config P3))),
                                 Console (PromptIs (prompt (config P3))),
                                 Console (ConcurrencyIs (concurrency (config P3)))] P3 in
                  (case batch_loop W imageFiles 0 P4 of
                     None \<Rightarrow> None
                   | Some P5 \<Rightarrow>
                       (case saveResults W P5 of
                          (Inl message, P6) \<Rightarrow> Some (Inl message, P6)
                        | (Inr u, P6) \<Rightarrow> Some (Inr (), printSummary P6))))))))"

text \<open>
  \<open>main\<close> returns the exit code of the program (1 after \<open>process.exit(1)\<close>, 0 when
  \<open>main\<close> returns normally), everything the run did to the outside, and the processor
  if the constructor built one. Both \<open>new ImageBatchProcessor(CONFIG)\<close> and
  \<open>processor.process()\<close> are inside the \<open>try\<close>: what either throws is printed by the
  \<open>catch\<close> as the fatal error.
\<close>

definition main :: "world \<Rightarrow> (nat \<times> event list \<times> processor option) option" where
  "main W =
     (case ImageBatchProcessor W (CONFIG (environ W)) of
        Inl message \<Rightarrow> Some (1, [Console (FatalError message), Exit 1], None)
      | Inr processor \<Rightarrow>
          (case process W processor of
             None \<Rightarrow> None
           | Some (Inl message, P) \<Rightarrow>
               Some (1, trace P @ [Console (FatalError message), Exit 1], Some P)
           | Some (Inr u, P) \<Rightarrow> Some (0, trace P, Some P)))"

section \<open>Observations of a run\<close>

subsection \<open>Attempts of one item\<close>

text \<open>
  Attempt \<open>k\<close> of an item fails when the \<open>try\<close> block throws at retry count \<open>k\<close>. A failed
  attempt that is retried is followed by the console line of the retry and by the wait
  \<open>this.delay(this.config.retryDelay)\<close>. Each attempt starts with one file read.
\<close>

definition attempt_fails :: "world \<Rightarrow> config \<Rightarrow> string \<Rightarrow> nat \<Rightarrow> bool" where
  "attempt_fails W cfg imagePath k = isl (fst (try_block W cfg imagePath k))"

definition retry_events :: "world \<Rightarrow> config \<Rightarrow> string \<Rightarrow> nat \<Rightarrow> event list" where
  "retry_events W cfg imagePath k =
     snd (try_block W cfg imagePath k)
     @ [Console (Retrying (path_basename W imagePath) (k + 1) (maxRetries cfg)),
        RetryDelay (retryDelay cfg)]"

fun is_read :: "event \<Rightarrow> bool" where
  "is_read (ReadFile p) = True"
| "is_read _ = False"

definition attempts_made :: "event list \<Rightarrow> nat" where
  "attempts_made evs = length (filter is_read evs)"

fun retry_waits :: "event list \<Rightarrow> nat list" where
  "retry_waits [] = []"
| "retry_waits (RetryDelay d # es) = d # retry_waits es"
| "retry_waits (e # es) = retry_waits es"

subsection \<open>Scheduling, progress and persistence\<close>

text \<open>
  The schedule of a run is what is left of its events when only the dispatches, the
  settlements and the waits between batches are kept. The number of items in flight after
  a list of events is the number of its dispatches minus the number of its settlements;
  an item in flight has at most one file read or remote call outstanding, since
  \<open>analyzeImage\<close> makes its attempts one after the other. \<open>progress\<close> lists the pairs
  \<open>[processedCount/totalCount]\<close> of the progress lines, \<open>written\<close> the files written.
\<close>

fun is_sched :: "event \<Rightarrow> bool" where
  "is_sched (Dispatch p) = True"
| "is_sched (Settled p) = True"
| "is_sched (BatchDelay d) = True"
| "is_sched _ = False"

definition schedule :: "event list \<Rightarrow> event list" where
  "schedule evs = filter is_sched evs"

fun in_flight :: "event list \<Rightarrow> int" where
  "in_flight [] = 0"
| "in_flight (Dispatch p # es) = in_flight es + 1"
| "in_flight (Settled p # es) = in_flight es - 1"
| "in_flight (e # es) = in_flight es"

fun is_batch_delay :: "event \<Rightarrow> bool" where
  "is_batch_delay (BatchDelay d) = True"
| "is_batch_delay _ = False"

fun progress :: "event list \<Rightarrow> (nat \<times> nat) list" where
  "progress [] = []"
| "progress (Console (Processed a b name) # es) = (a, b) # progress es"
| "progress (e # es) = progress es"

fun written :: "event list \<Rightarrow> (string \<times> string) list" where
  "written [] = []"
| "written (WriteFile path document # es) = (path, document) # written es"
| "written (e # es) = written es"

subsection \<open>Result objects\<close>

text \<open>The property names of the two object literals that \<open>analyzeImage\<close> returns.\<close>

definition success_keys :: "string list" where
  "success_keys = [''image'', ''path'', ''success'', ''description'', ''model'', ''usage'', ''timestamp'']"

definition failure_keys :: "string list" where
  "failure_keys = [''image'', ''path'', ''success'', ''error'', ''timestamp'']"

definition is_success :: "js \<Rightarrow> bool" where
  "is_success r = (js_get r ''success'' = Some (JBool True) \<and> js_keys r = success_keys)"

definition is_failure :: "js \<Rightarrow> bool" where
  "is_failure r = (js_get r ''success'' = Some (JBool False) \<and> js_keys r = failure_keys)"

section \<open>The schedule as the specification words it\<close>

text \<open>
  The item list is cut, in input order, into consecutive windows of \<open>k\<close> items, the last
  one possibly smaller. Each window is dispatched as a whole and settles as a whole; a
  wait of \<open>batchDelay\<close> follows every window but the last. \<open>run_windows\<close> runs
  \<open>processBatch\<close> on the windows in this way; the theorems below compare the \<open>for\<close>
  loop of \<open>process\<close> with it.
\<close>

function windows :: "nat \<Rightarrow> 'a list \<Rightarrow> 'a list list" where
  "windows k xs = (if k = 0 \<or> xs = [] then [] else take k xs # windows k (drop k xs))"
  by pat_completeness auto

termination
  by (relation "measure (\<lambda>(k, xs). length xs)") auto

declare windows.simps [simp del]

definition window_schedule :: "world \<Rightarrow> string list \<Rightarrow> event list" where
  "window_schedule W w = map Dispatch w @ map Settled (settleOrder W w)"

fun expected_schedule :: "world \<Rightarrow> int \<Rightarrow> string list list \<Rightarrow> event list" where
  "expected_schedule W d [] = []"
| "expected_schedule W d [w] = window_schedule W w"
| "expected_schedule W d (w # ws) = window_schedule W w @ BatchDelay d # expected_schedule W d ws"

fun run_windows :: "world \<Rightarrow> string list list \<Rightarrow> processor \<Rightarrow> processor" where
  "run_windows W [] P = P"
| "run_windows W (w # ws) P =
     (let P1 = processBatch W w P
      in run_windows W ws (if ws = [] then P1 else emit [BatchDelay (batchDelay (config P1))] P1))"

section \<open>Auxiliary notions\<close>

text \<open>
  The events of one item's attempts; the progress pairs numbered from \<open>a + 1\<close>; the
  processor when \<open>process\<close> enters its loop; and what \<open>process\<close> does after the loop.
\<close>

fun item_event :: "event \<Rightarrow> bool" where
  "item_event (ReadFile p) = True"
| "item_event (RemoteCall p r) = True"
| "item_event (RetryDelay d) = True"
| "item_event (Console (Retrying n a b)) = True"
| "item_event _ = False"

definition counted :: "nat \<Rightarrow> nat \<Rightarrow> nat \<Rightarrow> (nat \<times> nat) list" where
  "counted a m tot = map (\<lambda>k. (k, tot)) [a + 1..<a + m + 1]"

definition loop_entry :: "processor \<Rightarrow> string list \<Rightarrow> processor" where
  "loop_entry P0 files =
     emit [Console (Found (length files)),
           Console (UsingModel (model (config P0))),
           Console (PromptIs (prompt (config P0))),
           Console (ConcurrencyIs (concurrency (config P0)))]
       ((emit [Console (ReadingFrom (imagesDir (config P0)))] (emit [Console Starting] P0))
          \<lparr> totalCount := length files \<rparr>)"

definition finish :: "world \<Rightarrow> processor \<Rightarrow> (string + unit) \<times> processor" where
  "finish W P5 =
     (case saveResults W P5 of
        (Inl message, P6) \<Rightarrow> (Inl message, P6)
      | (Inr u, P6) \<Rightarrow> (Inr (), printSummary P6))"

definition shaped :: "processor \<Rightarrow> bool" where
  "shaped P = ((\<forall>r\<in>set (results P). is_success r) \<and> (\<forall>r\<in>set (errors P). is_failure r))"

text \<open>
  For the parser: what may follow a printed value, strings of white space, and the
  characters a printed value can start with.
\<close>

definition delim :: "string \<Rightarrow> bool" where
  "delim rest = (rest = [] \<or> hd rest = CHR '','' \<or> hd rest = newline)"

definition all_ws :: "string \<Rightarrow> bool" where
  "all_ws ws = (\<forall>c\<in>set ws. is_json_ws c)"

definition opens_value :: "char \<Rightarrow> bool" where
  "opens_value c = (\<not> is_json_ws c \<and> c \<noteq> CHR '']'' \<and> c \<noteq> CHR ''}'')"

section \<open>Sample worlds\<close>

text \<open>
  Concrete worlds on which the theorems below are instantiated: every file read succeeds,
  the remote call for \<open>p\<close> at retry count \<open>k\<close> succeeds when \<open>ok p k\<close>, and all promises of a
  batch settle in input order.
\<close>

definition posix_basename :: "string \<Rightarrow> string" where
  "posix_basename p = rev (takeWhile (\<lambda>c. c \<noteq> CHR ''/'') (rev p))"

definition posix_extname :: "string \<Rightarrow> string" where
  "posix_extname p =
     (let b = posix_basename p; e = rev (takeWhile (\<lambda>c. c \<noteq> CHR ''.'') (rev b))
      in if CHR ''.'' \<notin> set b \<or> Suc (length e) = length b then [] else CHR ''.'' # e)"

definition demo_response :: response where
  "demo_response =
     \<lparr> choices = [JStr ''A cat on a sofa.''],
       resp_model = JStr ''gpt-4o-2024-08-06'',
       usage = JObj [(''prompt_tokens'', JNum 1105), (''completion_tokens'', JNum 150),
                     (''total_tokens'', JNum 1255)] \<rparr>"

definition demo_world :: "(string \<rightharpoonup> string) \<Rightarrow> string list \<Rightarrow> (string \<Rightarrow> nat \<Rightarrow> bool) \<Rightarrow> world" where
  "demo_world env names ok =
     \<lparr> environ = env,
       newOpenAI = (\<lambda>key. case key of
                     None \<Rightarrow> Some ''The OPENAI_API_KEY environment variable is missing or empty''
                   | Some k \<Rightarrow> None),
       readdir = (\<lambda>dir. Inr names),
       readFile = (\<lambda>p k. Inr ''bytes''),
       base64 = (\<lambda>b. b),
       create = (\<lambda>p k req. if ok p k then Inr demo_response else Inl ''429 Too Many Requests''),
       now = (\<lambda>p k. ''2025-01-15T10:30:15.000Z''),
       finishTime = (\<lambda>p. 0),
       savedAt = ''2025-01-15T10:31:00.000Z'',
       writeFile = (\<lambda>p d. None),
       path_basename = posix_basename,
       path_extname = posix_extname,
       path_join = (\<lambda>d f. d @ CHR ''/'' # f) \<rparr>"

definition flaky_world :: world where
  "flaky_world = demo_world Map.empty [] (\<lambda>p k. p = ''a.jpg'' \<and> k = 2)"

definition env_bad_numbers :: "string \<rightharpoonup> string" where
  "env_bad_numbers = [''MAX_TOKENS'' \<mapsto> ''abc'', ''CONCURRENCY'' \<mapsto> ''0'']"

definition env7 :: "string \<rightharpoonup> string" where
  "env7 = [''OPENAI_API_KEY'' \<mapsto> ''sk-test'', ''CONCURRENCY'' \<mapsto> ''3'', ''BATCH_DELAY'' \<mapsto> ''100'']"

definition names7 :: "string list" where
  "names7 = [''a.jpg'', ''b.png'', ''c.gif'', ''notes.txt'', ''d.JPG'', ''e.webp'', ''f.jpeg'', ''g.jpg'']"

definition files7 :: "string list" where
  "files7 = [''./images/a.jpg'', ''./images/b.png'', ''./images/c.gif'', ''./images/d.JPG'',
             ''./images/e.webp'', ''./images/f.jpeg'', ''./images/g.jpg'']"

definition world7 :: world where
  "world7 = demo_world env7 names7 (\<lambda>p k. True)"

definition env_neg :: "string \<rightharpoonup> string" where
  "env_neg = [''OPENAI_API_KEY'' \<mapsto> ''sk-test'', ''CONCURRENCY'' \<mapsto> ''-1'']"

definition names5 :: "string list" where
  "names5 = [''a.jpg'', ''b.jpg'', ''c.jpg'', ''d.jpg'', ''e.jpg'']"

definition files5 :: "string list" where
  "files5 = [''./images/a.jpg'', ''./images/b.jpg'', ''./images/c.jpg'', ''./images/d.jpg'',
             ''./images/e.jpg'']"

definition world_neg :: world where
  "world_neg = demo_world env_neg names5 (\<lambda>p k. True)"

definition world_empty :: world where
  "world_empty = demo_world env7 [''notes.txt'', ''README.md''] (\<lambda>p k. True)"

definition world_nokey :: world where
  "world_nokey = demo_world Map.empty names7 (\<lambda>p k. True)"

definition env_blank :: "string \<rightharpoonup> string" where
  "env_blank = [''OPENAI_API_KEY'' \<mapsto> []]"

definition world_blankkey :: world where
  "world_blankkey = demo_world env_blank names7 (\<lambda>p k. True)"

definition world_nokey_noimages :: world where
  "world_nokey_noimages = demo_world Map.empty [''notes.txt'', ''README.md''] (\<lambda>p k. True)"

definition world_blankkey_noimages :: world where
  "world_blankkey_noimages = demo_world env_blank [''notes.txt'', ''README.md''] (\<lambda>p k. True)"

definition world_nodir :: world where
  "world_nodir = (demo_world env7 names7 (\<lambda>p k. True))
     \<lparr> readdir := (\<lambda>dir. Inl ''ENOENT: no such file or directory'') \<rparr>"

definition world_failing :: world where
  "world_failing = demo_world env7 names7 (\<lambda>p k. False)"

definition env_retry :: "string \<rightharpoonup> string" where
  "env_retry = [''OPENAI_API_KEY'' \<mapsto> ''sk-test'', ''MAX_RETRIES'' \<mapsto> ''7'', ''RETRY_DELAY'' \<mapsto> ''10'',
                ''maxRetries'' \<mapsto> ''7'', ''retryDelay'' \<mapsto> ''10'']"

section \<open>Properties of the configuration\<close>

lemma or_num_nonzero: "d \<noteq> 0 \<Longrightarrow> or_num a d \<noteq> 0"
  by (simp add: or_num_def split: option.splits)

lemma or_num_default: "a = None \<or> a = Some 0 \<Longrightarrow> or_num a d = d"
  by (auto simp: or_num_def)

text \<open>
  Claim C10. For \<open>maxTokens\<close>, \<open>concurrency\<close> and \<open>batchDelay\<close>, an environment value that
  parses to 0 or does not parse as an integer is replaced by the default (500, 5, 1000),
  so none of the three options is ever 0.
\<close>

theorem CONFIG_numeric_defaults:
  "(parseInt (env ''MAX_TOKENS'') = None \<or> parseInt (env ''MAX_TOKENS'') = Some 0
      \<longrightarrow> maxTokens (CONFIG env) = 500)
   \<and> (parseInt (env ''CONCURRENCY'') = None \<or> parseInt (env ''CONCURRENCY'') = Some 0
      \<longrightarrow> concurrency (CONFIG env) = 5)
   \<and> (parseInt (env ''BATCH_DELAY'') = None \<or> parseInt (env ''BATCH_DELAY'') = Some 0
      \<longrightarrow> batchDelay (CONFIG env) = 1000)
   \<and> maxTokens (CONFIG env) \<noteq> 0
   \<and> concurrency (CONFIG env) \<noteq> 0
   \<and> batchDelay (CONFIG env) \<noteq> 0"
  by (simp add: CONFIG_def or_num_nonzero or_num_default)

theorem CONFIG_numeric_defaults_witness:
  "parseInt (env_bad_numbers ''MAX_TOKENS'') = None
   \<and> parseInt (env_bad_numbers ''CONCURRENCY'') = Some 0
   \<and> parseInt (env_bad_numbers ''BATCH_DELAY'') = None
   \<and> maxTokens (CONFIG env_bad_numbers) = 500
   \<and> concurrency (CONFIG env_bad_numbers) = 5
   \<and> batchDelay (CONFIG env_bad_numbers) = 1000"
proof -
  have a: "parseInt (env_bad_numbers ''MAX_TOKENS'') = None"
    by (simp add: env_bad_numbers_def parseInt_def is_ws_def parse_magnitude_def is_digit_def
        digit_val_def)
  have b: "parseInt (env_bad_numbers ''CONCURRENCY'') = Some 0"
    by (simp add: env_bad_numbers_def parseInt_def is_ws_def parse_magnitude_def is_digit_def
        digit_val_def digits_value_def)
  have c: "parseInt (env_bad_numbers ''BATCH_DELAY'') = None"
    by (simp add: env_bad_numbers_def parseInt_def)
  from a b c CONFIG_numeric_defaults [of env_bad_numbers] show ?thesis by simp
qed

section \<open>The retry wrapper\<close>

lemma retry_waits_append: "retry_waits (xs @ ys) = retry_waits xs @ retry_waits ys"
  by (induction xs rule: retry_waits.induct) auto

lemma attempts_made_append: "attempts_made (xs @ ys) = attempts_made xs + attempts_made ys"
  by (simp add: attempts_made_def)

lemma try_block_reads: "attempts_made (snd (try_block W cfg p k)) = 1"
  by (simp add: try_block_def attempts_made_def Let_def split: sum.splits list.splits)

lemma try_block_waits: "retry_waits (snd (try_block W cfg p k)) = []"
  by (simp add: try_block_def Let_def split: sum.splits list.splits)

lemma retry_events_reads: "attempts_made (retry_events W cfg p k) = 1"
  using try_block_reads [of W cfg p k]
  by (simp add: retry_events_def attempts_made_def)

lemma retry_events_waits: "retry_waits (retry_events W cfg p k) = [retryDelay cfg]"
  by (simp add: retry_events_def retry_waits_append try_block_waits)

lemma attempts_made_retries:
  "attempts_made (concat (map (retry_events W cfg p) [k..<j])) = j - k"
  by (induction j) (auto simp: attempts_made_append retry_events_reads attempts_made_def [of "[]"])

lemma retry_waits_retries:
  "retry_waits (concat (map (retry_events W cfg p) [k..<j])) = replicate (j - k) (retryDelay cfg)"
proof (induction j)
  case 0
  then show ?case by simp
next
  case (Suc j)
  show ?case
  proof (cases "k \<le> j")
    case True
    then have "Suc j - k = Suc (j - k)" by simp
    with Suc True show ?thesis
      by (simp add: retry_waits_append retry_events_waits replicate_append_same)
  next
    case False
    then show ?thesis by simp
  qed
qed


lemma analyzeImage_all_fail:
  "k \<le> maxRetries cfg \<Longrightarrow> (\<forall>i. k \<le> i \<and> i \<le> maxRetries cfg \<longrightarrow> attempt_fails W cfg p i)
   \<Longrightarrow> try_block W cfg p (maxRetries cfg) = (Inl m, evs)
   \<Longrightarrow> analyzeImage W cfg p k =
        (failure_result W p (maxRetries cfg) m,
         concat (map (retry_events W cfg p) [k..<maxRetries cfg]) @ evs)"
proof (induction "maxRetries cfg - k" arbitrary: k)
  case 0
  then have "k = maxRetries cfg" by simp
  with 0 show ?case by (simp add: analyzeImage.simps [of W cfg p "maxRetries cfg"])
next
  case (Suc d)
  then have kj: "k < maxRetries cfg" and fails: "attempt_fails W cfg p k" by auto
  from fails obtain m' es where tb: "try_block W cfg p k = (Inl m', es)"
    by (cases "try_block W cfg p k") (auto simp: attempt_fails_def isl_def)
  have step: "analyzeImage W cfg p (Suc k) =
      (failure_result W p (maxRetries cfg) m,
       concat (map (retry_events W cfg p) [Suc k..<maxRetries cfg]) @ evs)"
    using Suc.hyps(1) [of "Suc k"] Suc.hyps(2) Suc.prems kj by auto
  have up: "[k..<maxRetries cfg] = k # [Suc k..<maxRetries cfg]" using kj by (simp add: upt_conv_Cons)
  show ?case
    using kj by (simp add: analyzeImage.simps [of W cfg p k] tb step up retry_events_def)
qed







lemma analyzeImage_budget:
  assumes "\<forall>i\<le>maxRetries cfg. attempt_fails W cfg p i"
  shows "attempts_made (snd (analyzeImage W cfg p 0)) = maxRetries cfg + 1
       \<and> retry_waits (snd (analyzeImage W cfg p 0)) = replicate (maxRetries cfg) (retryDelay cfg)"
proof -
  from assms have "attempt_fails W cfg p (maxRetries cfg)" by simp
  then obtain m evs where tb: "try_block W cfg p (maxRetries cfg) = (Inl m, evs)"
    by (cases "try_block W cfg p (maxRetries cfg)") (auto simp: attempt_fails_def isl_def)
  have run: "analyzeImage W cfg p 0 =
           (failure_result W p (maxRetries cfg) m,
            concat (map (retry_events W cfg p) [0..<maxRetries cfg]) @ evs)"
    using analyzeImage_all_fail [of 0 cfg W p m evs] assms tb by simp
  have reads: "attempts_made evs = 1" and waits: "retry_waits evs = []"
    using try_block_reads [of W cfg p "maxRetries cfg"] try_block_waits [of W cfg p "maxRetries cfg"] tb
    by simp_all
  show ?thesis
    using run reads waits
    by (simp add: attempts_made_append attempts_made_retries retry_waits_append retry_waits_retries)
qed

lemma flaky_fails_any:
  "attempt_fails flaky_world cfg ''b.png'' i"
  by (simp add: attempt_fails_def try_block_def imageToBase64_def flaky_world_def demo_world_def
      demo_response_def Let_def)

text \<open>
  Claim C9 (as amended). \<open>maxRetries\<close> and \<open>retryDelay\<close> are not read from the environment:
  \<open>CONFIG\<close> sets them to 3 and 2000 whatever the environment holds. \<open>analyzeImage\<close> takes
  its retry budget and its wait from the configuration object it is given: an item that
  fails every attempt is tried \<open>maxRetries + 1\<close> times with \<open>maxRetries\<close> waits of
  \<open>retryDelay\<close>.
\<close>

theorem retry_options_fixed:
  "maxRetries (CONFIG env) = 3
   \<and> retryDelay (CONFIG env) = 2000
   \<and> ((\<forall>i\<le>maxRetries cfg. attempt_fails W cfg p i) \<longrightarrow>
        attempts_made (snd (analyzeImage W cfg p 0)) = maxRetries cfg + 1
      \<and> retry_waits (snd (analyzeImage W cfg p 0)) = replicate (maxRetries cfg) (retryDelay cfg))"
  using analyzeImage_budget [of cfg W p] by (simp add: CONFIG_def)

theorem retry_options_fixed_witness:
  "maxRetries (CONFIG env_retry) = 3
   \<and> retryDelay (CONFIG env_retry) = 2000
   \<and> attempt_fails flaky_world (CONFIG env_retry) ''b.png'' 0
   \<and> attempt_fails flaky_world (CONFIG env_retry) ''b.png'' 3
   \<and> attempts_made (snd (analyzeImage flaky_world (CONFIG env_retry) ''b.png'' 0)) = 3 + 1
   \<and> retry_waits (snd (analyzeImage flaky_world (CONFIG env_retry) ''b.png'' 0)) = replicate 3 2000"
  using retry_options_fixed [of env_retry "CONFIG env_retry" flaky_world "''b.png''"] flaky_fails_any
  by simp

text \<open>
  The claim as stated fails: with \<open>MAX_RETRIES=7\<close> and \<open>RETRY_DELAY=10\<close> in the
  environment, the configuration still has 3 and 2000, and a failing item is tried 4
  times with waits of 2000.
\<close>

theorem retry_options_counterexample:
  "env_retry ''MAX_RETRIES'' = Some ''7''
   \<and> env_retry ''RETRY_DELAY'' = Some ''10''
   \<and> maxRetries (CONFIG env_retry) = 3
   \<and> retryDelay (CONFIG env_retry) = 2000
   \<and> attempts_made (snd (analyzeImage flaky_world (CONFIG env_retry) ''b.png'' 0)) = 4
   \<and> retry_waits (snd (analyzeImage flaky_world (CONFIG env_retry) ''b.png'' 0)) = [2000, 2000, 2000]"
proof -
  have a: "env_retry ''MAX_RETRIES'' = Some ''7''" "env_retry ''RETRY_DELAY'' = Some ''10''"
    by (simp_all add: env_retry_def)
  have b: "maxRetries (CONFIG env_retry) = 3" "retryDelay (CONFIG env_retry) = 2000"
    by (simp_all add: CONFIG_def)
  have c: "attempts_made (snd (analyzeImage flaky_world (CONFIG env_retry) ''b.png'' 0)) = 4"
    by code_simp
  have d: "retry_waits (snd (analyzeImage flaky_world (CONFIG env_retry) ''b.png'' 0)) = [2000, 2000, 2000]"
    by code_simp
  from a b c d show ?thesis by simp
qed

section \<open>Result objects\<close>





section \<open>The aggregator and one batch\<close>

lemma try_block_item_events: "e \<in> set (snd (try_block W cfg p k)) \<Longrightarrow> item_event e"
  by (auto simp: try_block_def Let_def split: sum.splits list.splits)

lemma analyzeImage_item_events_all: "\<forall>e\<in>set (snd (analyzeImage W cfg p k)). item_event e"
proof (induction W cfg p k rule: analyzeImage.induct)
  case (1 W cfg p k)
  show ?case
  proof (cases "try_block W cfg p k")
    case (Pair r evs)
    note tb = this
    have evs: "\<forall>e\<in>set evs. item_event e"
      using try_block_item_events [of _ W cfg p k] tb by simp
    show ?thesis
    proof (cases r)
      case (Inr res)
      with tb evs show ?thesis by (simp add: analyzeImage.simps [of W cfg p k])
    next
      case (Inl m)
      show ?thesis
      proof (cases "k < maxRetries cfg")
        case True
        obtain r2 rest where rec: "analyzeImage W cfg p (k + 1) = (r2, rest)"
          by (cases "analyzeImage W cfg p (k + 1)")
        have ih: "\<forall>e\<in>set rest. item_event e"
          using "1.IH" [OF tb [symmetric] Inl True] rec by simp
        have "snd (analyzeImage W cfg p k) =
            evs @ [Console (Retrying (path_basename W p) (k + 1) (maxRetries cfg)),
                   RetryDelay (retryDelay cfg)] @ rest"
          using tb Inl True rec by (simp add: analyzeImage.simps [of W cfg p k])
        with evs ih show ?thesis by auto
      next
        case False
        with tb Inl evs show ?thesis by (simp add: analyzeImage.simps [of W cfg p k])
      qed
    qed
  qed
qed

lemma analyzeImage_item_events: "e \<in> set (snd (analyzeImage W cfg p k)) \<Longrightarrow> item_event e"
  using analyzeImage_item_events_all by blast

lemma item_event_not_sched: "item_event e \<Longrightarrow> \<not> is_sched e"
  by (induction e rule: item_event.induct) auto

lemma schedule_item_events: "(\<And>e. e \<in> set evs \<Longrightarrow> item_event e) \<Longrightarrow> schedule evs = []"
  by (auto simp: schedule_def filter_empty_conv dest: item_event_not_sched)

lemma progress_item_events: "(\<And>e. e \<in> set evs \<Longrightarrow> item_event e) \<Longrightarrow> progress evs = []"
proof (induction evs rule: progress.induct)
  case (2 a b name es)
  from "2.prems" [of "Console (Processed a b name)"] show ?case by simp
qed auto

lemma written_item_events: "(\<And>e. e \<in> set evs \<Longrightarrow> item_event e) \<Longrightarrow> written evs = []"
proof (induction evs rule: written.induct)
  case (2 path document es)
  from "2.prems" [of "WriteFile path document"] show ?case by simp
qed auto

lemma progress_append: "progress (xs @ ys) = progress xs @ progress ys"
  by (induction xs rule: progress.induct) auto

lemma written_append: "written (xs @ ys) = written xs @ written ys"
  by (induction xs rule: written.induct) auto

lemma schedule_append: "schedule (xs @ ys) = schedule xs @ schedule ys"
  by (simp add: schedule_def)

lemma in_flight_append: "in_flight (xs @ ys) = in_flight xs + in_flight ys"
  by (induction xs rule: in_flight.induct) auto

lemma emit_fields [simp]:
  "config (emit es P) = config P" "totalCount (emit es P) = totalCount P"
  "processedCount (emit es P) = processedCount P" "results (emit es P) = results P"
  "errors (emit es P) = errors P" "trace (emit es P) = trace P @ es"
  by (simp_all add: emit_def)

lemma settle_fields:
  "config (settle W p r P) = config P"
  "totalCount (settle W p r P) = totalCount P"
  "processedCount (settle W p r P) = processedCount P + 1"
  "length (results (settle W p r P)) + length (errors (settle W p r P))
     = length (results P) + length (errors P) + 1"
  by (simp_all add: settle_def Let_def)

lemma settle_trace:
  "\<exists>evs. trace (settle W p r P) = trace P @ evs
     \<and> schedule evs = [Settled p]
     \<and> progress evs = [(processedCount P + 1, totalCount P)]
     \<and> written evs = []"
  by (simp add: settle_def Let_def schedule_def)

lemma run_item_fields:
  "config (run_item W p P) = config P"
  "totalCount (run_item W p P) = totalCount P"
  "processedCount (run_item W p P) = processedCount P + 1"
  "length (results (run_item W p P)) + length (errors (run_item W p P))
     = length (results P) + length (errors P) + 1"
  by (simp_all add: run_item_def settle_fields split: prod.splits)

lemma run_item_trace:
  "\<exists>evs. trace (run_item W p P) = trace P @ evs
     \<and> schedule evs = [Settled p]
     \<and> progress evs = [(processedCount P + 1, totalCount P)]
     \<and> written evs = []"
proof -
  obtain r es where run: "analyzeImage W (config P) p 0 = (r, es)"
    by (cases "analyzeImage W (config P) p 0")
  have item: "\<And>e. e \<in> set es \<Longrightarrow> item_event e"
    using analyzeImage_item_events [of _ W "config P" p 0] run by simp
  obtain evs where evs: "trace (settle W p r (emit es P)) = trace (emit es P) @ evs"
      "schedule evs = [Settled p]"
      "progress evs = [(processedCount (emit es P) + 1, totalCount (emit es P))]"
      "written evs = []"
    using settle_trace [of W p r "emit es P"] by blast
  have "trace (run_item W p P) = trace P @ (es @ evs)"
    using run evs(1) by (simp add: run_item_def)
  moreover have "schedule (es @ evs) = [Settled p]"
    using evs(2) schedule_item_events [OF item] by (simp add: schedule_append)
  moreover have "progress (es @ evs) = [(processedCount P + 1, totalCount P)]"
    using evs(3) progress_item_events [OF item] by (simp add: progress_append)
  moreover have "written (es @ evs) = []"
    using evs(4) written_item_events [OF item] by (simp add: written_append)
  ultimately show ?thesis by blast
qed

lemma counted_append: "counted a m tot @ counted (a + m) m' tot = counted a (m + m') tot"
proof -
  have "[a + 1..<a + (m + m') + 1] = [a + 1..<a + m + 1] @ [a + m + 1..<a + m + m' + 1]"
    using upt_add_eq_append [of "a + 1" "a + m + 1" m'] by (simp add: add.assoc)
  then show ?thesis by (simp add: counted_def)
qed

lemma counted_Suc: "counted a (Suc m) tot = (Suc a, tot) # counted (Suc a) m tot"
  by (simp add: counted_def upt_conv_Cons)

lemma counted_zero: "counted a 0 tot = []"
  by (simp add: counted_def)

lemma counted_bound: "(a, b) \<in> set (counted 0 m tot) \<Longrightarrow> 1 \<le> a \<and> a \<le> m \<and> b = tot"
  by (auto simp: counted_def)

lemma fold_run_item_fields:
  "config (fold (run_item W) ps P) = config P"
  "totalCount (fold (run_item W) ps P) = totalCount P"
  "processedCount (fold (run_item W) ps P) = processedCount P + length ps"
  "length (results (fold (run_item W) ps P)) + length (errors (fold (run_item W) ps P))
     = length (results P) + length (errors P) + length ps"
  by (induction ps arbitrary: P) (simp_all add: run_item_fields)

lemma fold_run_item_trace:
  "\<exists>evs. trace (fold (run_item W) ps P) = trace P @ evs
     \<and> schedule evs = map Settled ps
     \<and> progress evs = counted (processedCount P) (length ps) (totalCount P)
     \<and> written evs = []"
proof (induction ps arbitrary: P)
  case Nil
  show ?case by (simp add: schedule_def counted_zero)
next
  case (Cons p ps)
  obtain e1 where e1: "trace (run_item W p P) = trace P @ e1" "schedule e1 = [Settled p]"
      "progress e1 = [(processedCount P + 1, totalCount P)]" "written e1 = []"
    using run_item_trace [of W p P] by blast
  obtain e2 where e2: "trace (fold (run_item W) ps (run_item W p P)) = trace (run_item W p P) @ e2"
      "schedule e2 = map Settled ps"
      "progress e2 = counted (processedCount (run_item W p P)) (length ps) (totalCount (run_item W p P))"
      "written e2 = []"
    using Cons.IH [of "run_item W p P"] by blast
  have "trace (fold (run_item W) (p # ps) P) = trace P @ (e1 @ e2)"
    using e1(1) e2(1) by simp
  moreover have "schedule (e1 @ e2) = map Settled (p # ps)"
    using e1(2) e2(2) by (simp add: schedule_append)
  moreover have "progress (e1 @ e2) = counted (processedCount P) (length (p # ps)) (totalCount P)"
    using e1(3) e2(3) by (simp add: progress_append run_item_fields counted_Suc)
  moreover have "written (e1 @ e2) = []"
    using e1(4) e2(4) by (simp add: written_append)
  ultimately show ?case by blast
qed

lemma length_settleOrder [simp]: "length (settleOrder W w) = length w"
  by (simp add: settleOrder_def)

lemma mset_settleOrder: "mset (settleOrder W w) = mset w"
  by (simp add: settleOrder_def)

lemma schedule_Dispatch: "schedule (map Dispatch w) = map Dispatch w"
  by (induction w) (simp_all add: schedule_def)

lemma progress_Dispatch: "progress (map Dispatch w) = []"
  by (induction w) simp_all

lemma written_Dispatch: "written (map Dispatch w) = []"
  by (induction w) simp_all

lemma processBatch_fields:
  "config (processBatch W w P) = config P"
  "totalCount (processBatch W w P) = totalCount P"
  "processedCount (processBatch W w P) = processedCount P + length w"
  "length (results (processBatch W w P)) + length (errors (processBatch W w P))
     = length (results P) + length (errors P) + length w"
  by (simp_all add: processBatch_def fold_run_item_fields)

lemma processBatch_trace:
  "\<exists>evs. trace (processBatch W w P) = trace P @ evs
     \<and> schedule evs = window_schedule W w
     \<and> progress evs = counted (processedCount P) (length w) (totalCount P)
     \<and> written evs = []"
proof -
  let ?P = "emit (map Dispatch w) P"
  obtain e2 where e2: "trace (fold (run_item W) (settleOrder W w) ?P) = trace ?P @ e2"
      "schedule e2 = map Settled (settleOrder W w)"
      "progress e2 = counted (processedCount ?P) (length (settleOrder W w)) (totalCount ?P)"
      "written e2 = []"
    using fold_run_item_trace [of W "settleOrder W w" ?P] by blast
  have "trace (processBatch W w P) = trace P @ (map Dispatch w @ e2)"
    using e2(1) by (simp add: processBatch_def)
  moreover have "schedule (map Dispatch w @ e2) = window_schedule W w"
    using e2(2) by (simp add: schedule_append schedule_Dispatch window_schedule_def)
  moreover have "progress (map Dispatch w @ e2) = counted (processedCount P) (length w) (totalCount P)"
    using e2(3) by (simp add: progress_append progress_Dispatch)
  moreover have "written (map Dispatch w @ e2) = []"
    using e2(4) by (simp add: written_append written_Dispatch)
  ultimately show ?thesis by blast
qed


lemma emit_shaped [simp]: "shaped (emit es P) = shaped P"
  by (simp add: shaped_def)




section \<open>The loop of \<open>process\<close>\<close>

lemma js_slice_window:
  "0 < K \<Longrightarrow> j \<le> length xs \<Longrightarrow> js_slice xs (int j) (int j + K) = take (nat K) (drop j xs)"
proof (cases "int j + K \<le> int (length xs)")
  case True
  assume "0 < K" "j \<le> length xs"
  with True show ?thesis by (simp add: js_slice_def Let_def min_absorb1)
next
  case False
  assume K: "0 < K" and j: "j \<le> length xs"
  from False K j have "length (drop j xs) \<le> nat K" by simp
  then have "take (nat K) (drop j xs) = drop j xs" by simp
  moreover from False K j have "js_slice xs (int j) (int j + K) = take (length xs - j) (drop j xs)"
    by (simp add: js_slice_def Let_def min_absorb1 min_absorb2 nat_diff_distrib)
  ultimately show ?thesis by simp
qed

lemma windows_Nil [simp]: "windows k [] = []"
  by (simp add: windows.simps)

lemma windows_step: "0 < k \<Longrightarrow> xs \<noteq> [] \<Longrightarrow> windows k xs = take k xs # windows k (drop k xs)"
  by (subst windows.simps) simp

lemma windows_empty_iff: "0 < k \<Longrightarrow> windows k xs = [] \<longleftrightarrow> xs = []"
  by (subst windows.simps) simp

lemma concat_windows: "0 < k \<Longrightarrow> concat (windows k xs) = xs"
proof (induction k xs rule: windows.induct)
  case (1 k xs)
  show ?case
  proof (cases "xs = []")
    case True
    then show ?thesis by simp
  next
    case False
    with 1 show ?thesis by (simp add: windows_step)
  qed
qed

lemma windows_sizes: "0 < k \<Longrightarrow> w \<in> set (windows k xs) \<Longrightarrow> w \<noteq> [] \<and> length w \<le> k"
proof (induction k xs rule: windows.induct)
  case (1 k xs)
  show ?case
  proof (cases "xs = []")
    case True
    with "1.prems" show ?thesis by simp
  next
    case False
    with 1 show ?thesis by (auto simp: windows_step)
  qed
qed

lemma windows_full: "0 < k \<Longrightarrow> w \<in> set (butlast (windows k xs)) \<Longrightarrow> length w = k"
proof (induction k xs rule: windows.induct)
  case (1 k xs)
  show ?case
  proof (cases "xs = []")
    case True
    with "1.prems" show ?thesis by simp
  next
    case False
    note ne = this
    show ?thesis
    proof (cases "drop k xs = []")
      case True
      with ne "1.prems" show ?thesis by (simp add: windows_step)
    next
      case False
      then have "windows k (drop k xs) \<noteq> []" using "1.prems"(1) by (simp add: windows_empty_iff)
      with ne False 1 show ?thesis by (auto simp: windows_step)
    qed
  qed
qed

lemma windows_last:
  "0 < k \<Longrightarrow> xs \<noteq> [] \<Longrightarrow> last (windows k xs) \<noteq> [] \<and> length (last (windows k xs)) \<le> k"
  using windows_sizes [of k "last (windows k xs)" xs] windows_empty_iff [of k xs] last_in_set by blast

lemma windows_drop_step:
  "0 < k \<Longrightarrow> j < length xs \<Longrightarrow> windows k (drop j xs) = take k (drop j xs) # windows k (drop (j + k) xs)"
  using windows_step [of k "drop j xs"] by (simp add: add.commute)

lemma windows_drop_empty:
  "0 < k \<Longrightarrow> windows k (drop (j + k) xs) = [] \<longleftrightarrow> length xs \<le> j + k"
  by (simp add: windows_empty_iff)

lemma loop_body_config: "config (loop_body W files i P) = config P"
  by (simp add: loop_body_def Let_def processBatch_fields)

lemma expected_schedule_Cons:
  "ws \<noteq> [] \<Longrightarrow> expected_schedule W d (w # ws) = window_schedule W w @ BatchDelay d # expected_schedule W d ws"
  by (cases ws) simp_all

lemma window_schedule_no_delay: "filter is_batch_delay (window_schedule W w) = []"
  by (auto simp: window_schedule_def filter_empty_conv)

lemma expected_schedule_delays:
  "length (filter is_batch_delay (expected_schedule W d ws)) = length ws - 1"
proof (induction ws)
  case Nil
  show ?case by simp
next
  case (Cons w ws)
  show ?case
  proof (cases "ws = []")
    case True
    then show ?thesis by (simp add: window_schedule_no_delay)
  next
    case False
    then have "0 < length ws" by simp
    with Cons False show ?thesis
      by (simp add: expected_schedule_Cons window_schedule_no_delay)
  qed
qed

lemma run_windows_fields:
  "config (run_windows W ws P) = config P"
  "totalCount (run_windows W ws P) = totalCount P"
  "processedCount (run_windows W ws P) = processedCount P + length (concat ws)"
  "length (results (run_windows W ws P)) + length (errors (run_windows W ws P))
     = length (results P) + length (errors P) + length (concat ws)"
  by (induction ws arbitrary: P) (simp_all add: Let_def processBatch_fields)

lemma run_windows_trace:
  "\<exists>evs. trace (run_windows W ws P) = trace P @ evs
     \<and> schedule evs = expected_schedule W (batchDelay (config P)) ws
     \<and> progress evs = counted (processedCount P) (length (concat ws)) (totalCount P)
     \<and> written evs = []"
proof (induction ws arbitrary: P)
  case Nil
  show ?case by (simp add: schedule_def counted_zero)
next
  case (Cons w ws)
  let ?P1 = "processBatch W w P"
  obtain e1 where e1: "trace ?P1 = trace P @ e1" "schedule e1 = window_schedule W w"
      "progress e1 = counted (processedCount P) (length w) (totalCount P)" "written e1 = []"
    using processBatch_trace [of W w P] by blast
  show ?case
  proof (cases "ws = []")
    case True
    with e1 show ?thesis by (simp add: Let_def)
  next
    case False
    let ?P2 = "emit [BatchDelay (batchDelay (config ?P1))] ?P1"
    obtain e2 where e2: "trace (run_windows W ws ?P2) = trace ?P2 @ e2"
        "schedule e2 = expected_schedule W (batchDelay (config ?P2)) ws"
        "progress e2 = counted (processedCount ?P2) (length (concat ws)) (totalCount ?P2)"
        "written e2 = []"
      using Cons.IH [of ?P2] by blast
    let ?evs = "e1 @ BatchDelay (batchDelay (config P)) # e2"
    have "trace (run_windows W (w # ws) P) = trace P @ ?evs"
      using False e1(1) e2(1) by (simp add: Let_def processBatch_fields)
    moreover have "schedule ?evs = expected_schedule W (batchDelay (config P)) (w # ws)"
      using False e1(2) e2(2)
      by (simp add: expected_schedule_Cons schedule_append processBatch_fields)
        (simp add: schedule_def)
    moreover have "progress ?evs = counted (processedCount P) (length (concat (w # ws))) (totalCount P)"
      using e1(3) e2(3) counted_append [of "processedCount P" "length w" "totalCount P" "length (concat ws)"]
      by (simp add: progress_append processBatch_fields)
    moreover have "written ?evs = []"
      using e1(4) e2(4) by (simp add: written_append)
    ultimately show ?thesis by blast
  qed
qed


lemma batch_loop_windows:
  "0 < concurrency (config P) \<Longrightarrow>
   batch_loop W files (int j) P
     = Some (run_windows W (windows (nat (concurrency (config P))) (drop j files)) P)"
proof (induction "length files - j" arbitrary: j P rule: less_induct)
  case less
  let ?K = "concurrency (config P)"
  let ?k = "nat ?K"
  show ?case
  proof (cases "j < length files")
    case False
    then show ?thesis using batch_loop.simps [of W files "int j" P] by simp
  next
    case True
    let ?w = "take ?k (drop j files)"
    let ?P1 = "loop_body W files (int j) P"
    let ?rest = "windows ?k (drop (j + ?k) files)"
    have kpos: "0 < ?k" using less.prems by simp
    have slice: "js_slice files (int j) (int j + ?K) = ?w"
      using js_slice_window [of ?K j files] less.prems True by simp
    have cfg1: "config ?P1 = config P" by (rule loop_body_config)
    have next_i: "int j + ?K = int (j + ?k)" using less.prems by simp
    have smaller: "length files - (j + ?k) < length files - j" using True kpos by linarith
    have pos1: "0 < concurrency (config ?P1)" using less.prems cfg1 by simp
    have ih: "batch_loop W files (int (j + ?k)) ?P1 = Some (run_windows W ?rest ?P1)"
      using less.hyps [OF smaller pos1] cfg1 by simp
    have ws: "windows ?k (drop j files) = ?w # ?rest"
      using windows_drop_step [OF kpos True] .
    have last_iff: "?rest = [] \<longleftrightarrow> \<not> int j + ?K < int (length files)"
      unfolding next_i windows_drop_empty [OF kpos] by linarith
    have body: "?P1 = (let P1 = processBatch W ?w P
                      in if ?rest = [] then P1
                         else emit [BatchDelay (batchDelay (config P1))] P1)"
      unfolding last_iff loop_body_def slice Let_def processBatch_fields by simp
    have "batch_loop W files (int j) P = batch_loop W files (int j + concurrency (config ?P1)) ?P1"
      using True batch_loop.simps [of W files "int j" P] by (simp add: Let_def)
    also have "\<dots> = Some (run_windows W ?rest ?P1)"
      unfolding cfg1 next_i by (rule ih)
    also have "run_windows W ?rest ?P1 = run_windows W (windows ?k (drop j files)) P"
      unfolding ws run_windows.simps Let_def by (subst body) (simp add: Let_def)
    finally show ?thesis .
  qed
qed

lemma batch_loop_stuck:
  assumes "batch_loop W files i P = Some P'" and "i < int (length files)"
  shows "0 < concurrency (config P)"
proof -
  have "case (((W, files), i), P) of (((W, files), i), P) \<Rightarrow>
          i < int (length files) \<longrightarrow> 0 < concurrency (config P)"
    using assms(1)
  proof (rule batch_loop.raw_induct [where Pa = "\<lambda>x y. case x of (((W, files), i), P) \<Rightarrow>
          i < int (length files) \<longrightarrow> 0 < concurrency (config P)", rotated])
    fix f W files i P P'
    assume ih: "\<And>files i P b y. f files i P b = Some y \<Longrightarrow>
        (case (((files, i), P), b) of (((W, files), i), P) \<Rightarrow>
          i < int (length files) \<longrightarrow> 0 < concurrency (config P))"
      and step: "(if i < int (length files)
           then let P1 = loop_body W files i P in f W files (i + concurrency (config P1)) P1
           else Some P) = Some P'"
    show "case (((W, files), i), P) of (((W, files), i), P) \<Rightarrow>
          i < int (length files) \<longrightarrow> 0 < concurrency (config P)"
    proof (clarsimp, rule ccontr)
      assume lt: "i < int (length files)" and "\<not> 0 < concurrency (config P)"
      then have neg: "concurrency (config P) \<le> 0" by simp
      let ?P1 = "loop_body W files i P"
      from step lt have "f W files (i + concurrency (config ?P1)) ?P1 = Some P'"
        by (simp add: Let_def)
      from ih [OF this] have "i + concurrency (config ?P1) < int (length files)
          \<longrightarrow> 0 < concurrency (config ?P1)" by simp
      with neg lt show False by (simp add: loop_body_config)
    qed
  qed
  with assms(2) show ?thesis by simp
qed

lemma batch_loop_diverges:
  "concurrency (config P) \<le> 0 \<Longrightarrow> i < int (length files) \<Longrightarrow> batch_loop W files i P = None"
  using batch_loop_stuck [of W files i P] by (cases "batch_loop W files i P") auto

section \<open>\<open>process\<close> and \<open>main\<close>\<close>

lemma loop_entry_fields:
  "config (loop_entry P0 files) = config P0"
  "totalCount (loop_entry P0 files) = length files"
  "processedCount (loop_entry P0 files) = processedCount P0"
  "results (loop_entry P0 files) = results P0"
  "errors (loop_entry P0 files) = errors P0"
  by (simp_all add: loop_entry_def emit_def)

lemma loop_entry_trace:
  "\<exists>evs. trace (loop_entry P0 files) = trace P0 @ evs \<and> schedule evs = [] \<and> progress evs = []
     \<and> written evs = []"
  by (simp add: loop_entry_def emit_def schedule_def)


lemma finish_fields:
  "config (snd (finish W P)) = config P"
  "totalCount (snd (finish W P)) = totalCount P"
  "processedCount (snd (finish W P)) = processedCount P"
  "results (snd (finish W P)) = results P"
  "errors (snd (finish W P)) = errors P"
  by (simp_all add: finish_def saveResults_def printSummary_def Let_def split: option.splits)

lemma finish_trace:
  "\<exists>evs. trace (snd (finish W P)) = trace P @ evs \<and> schedule evs = [] \<and> progress evs = []"
  by (simp add: finish_def saveResults_def printSummary_def Let_def schedule_def split: option.splits)


lemma finish_Inl:
  "fst (finish W P) = Inl message \<Longrightarrow>
   writeFile W (outputFile (config P)) (JSON_stringify (output_of W P)) = Some message"
  by (auto simp: finish_def saveResults_def Let_def split: option.splits)

lemma finish_Inr:
  "writeFile W (outputFile (config P)) (JSON_stringify (output_of W P)) = None \<Longrightarrow>
   fst (finish W P) = Inr ()"
  by (simp add: finish_def saveResults_def Let_def)

lemma getImageFiles_none:
  "readdir W (imagesDir cfg) = Inr names \<Longrightarrow>
   \<forall>f\<in>set names. toLowerCase (path_extname W f) \<notin> set (imageExtensions cfg) \<Longrightarrow>
   getImageFiles W cfg = Inr []"
  by (simp add: getImageFiles_def Let_def filter_empty_conv)

lemma getImageFiles_unreadable:
  "readdir W (imagesDir cfg) = Inl e \<Longrightarrow>
   getImageFiles W cfg = Inl (''Failed to read images directory: '' @ e)"
  by (simp add: getImageFiles_def)

lemma getImageFiles_Inl:
  "getImageFiles W cfg = Inl message \<Longrightarrow> \<exists>e. readdir W (imagesDir cfg) = Inl e"
  by (cases "readdir W (imagesDir cfg)") (auto simp: getImageFiles_def Let_def)

lemma getImageFiles_readable:
  "readdir W (imagesDir cfg) = Inr names \<Longrightarrow> \<exists>files. getImageFiles W cfg = Inr files"
  by (simp add: getImageFiles_def Let_def)

lemma process_no_key:
  "key_missing (apiKey (config P0)) \<Longrightarrow>
   process W P0 = Some (Inl ''OPENAI_API_KEY is not set in environment variables'',
                        emit [Console Starting] P0)"
  by (simp add: process_def Let_def)

lemma process_no_directory:
  "\<not> key_missing (apiKey (config P0)) \<Longrightarrow> getImageFiles W (config P0) = Inl message \<Longrightarrow>
   process W P0 = Some (Inl message,
                        emit [Console (ReadingFrom (imagesDir (config P0)))] (emit [Console Starting] P0))"
  by (simp add: process_def Let_def)

lemma process_no_images:
  "\<not> key_missing (apiKey (config P0)) \<Longrightarrow> getImageFiles W (config P0) = Inr [] \<Longrightarrow>
   process W P0 = Some (Inr (),
     emit [Console NoImagesFound]
       ((emit [Console (ReadingFrom (imagesDir (config P0)))] (emit [Console Starting] P0))
          \<lparr> totalCount := 0 \<rparr>))"
  by (simp add: process_def Let_def)

lemma process_loop:
  "\<not> key_missing (apiKey (config P0)) \<Longrightarrow> getImageFiles W (config P0) = Inr files \<Longrightarrow> files \<noteq> [] \<Longrightarrow>
   process W P0 = map_option (finish W) (batch_loop W files 0 (loop_entry P0 files))"
  by (simp add: process_def Let_def loop_entry_def finish_def split: option.splits prod.splits sum.splits)

lemma process_run:
  assumes "\<not> key_missing (apiKey (config P0))" and "getImageFiles W (config P0) = Inr files"
    and "files \<noteq> []" and "0 < concurrency (config P0)"
  shows "process W P0 = Some (finish W (run_windows W (windows (nat (concurrency (config P0))) files)
                                          (loop_entry P0 files)))"
  using process_loop [OF assms(1,2,3)] batch_loop_windows [of "loop_entry P0 files" W files 0] assms(4)
  by (simp add: loop_entry_fields)

lemma process_diverges:
  assumes "\<not> key_missing (apiKey (config P0))" and "getImageFiles W (config P0) = Inr files"
    and "files \<noteq> []" and "concurrency (config P0) \<le> 0"
  shows "process W P0 = None"
  using process_loop [OF assms(1,2,3)] batch_loop_diverges [of "loop_entry P0 files" 0 files W] assms(3,4)
  by (simp add: loop_entry_fields)

text \<open>The constructor and \<open>main\<close>.\<close>

lemma ImageBatchProcessor_throws:
  "newOpenAI W (apiKey cfg) = Some message \<Longrightarrow> ImageBatchProcessor W cfg = Inl message"
  by (simp add: ImageBatchProcessor_def)

lemma ImageBatchProcessor_returns:
  "newOpenAI W (apiKey cfg) = None \<Longrightarrow> ImageBatchProcessor W cfg = Inr (constructed cfg)"
  by (simp add: ImageBatchProcessor_def)

lemma ImageBatchProcessor_Inr:
  "ImageBatchProcessor W cfg = Inr P \<longleftrightarrow> newOpenAI W (apiKey cfg) = None \<and> P = constructed cfg"
  by (auto simp: ImageBatchProcessor_def split: option.splits)

lemma main_throws:
  "newOpenAI W (apiKey (CONFIG (environ W))) = Some message \<Longrightarrow>
   main W = Some (1, [Console (FatalError message), Exit 1], None)"
  by (simp add: main_def ImageBatchProcessor_def)

lemma main_fatal:
  "newOpenAI W (apiKey (CONFIG (environ W))) = None \<Longrightarrow>
   process W (constructed (CONFIG (environ W))) = Some (Inl message, P) \<Longrightarrow>
   main W = Some (1, trace P @ [Console (FatalError message), Exit 1], Some P)"
  by (simp add: main_def ImageBatchProcessor_def)

lemma main_normal:
  "newOpenAI W (apiKey (CONFIG (environ W))) = None \<Longrightarrow>
   process W (constructed (CONFIG (environ W))) = Some (Inr u, P) \<Longrightarrow>
   main W = Some (0, trace P, Some P)"
  by (simp add: main_def ImageBatchProcessor_def)

lemma main_diverges:
  "newOpenAI W (apiKey (CONFIG (environ W))) = None \<Longrightarrow>
   process W (constructed (CONFIG (environ W))) = None \<Longrightarrow> main W = None"
  by (simp add: main_def ImageBatchProcessor_def)



section \<open>Printing and parsing JSON\<close>

lemma digit_char_dec: "d < 10 \<Longrightarrow> is_dec (digit_char d)"
  by (simp add: is_dec_def digit_char_def)

lemma digit_char_value: "d < 10 \<Longrightarrow> (of_char (digit_char d) :: nat) - 48 = d"
  by (simp add: digit_char_def)

lemma show_nat_nonempty: "show_nat n \<noteq> []"
  by (subst show_nat.simps) simp

lemma show_nat_digits: "c \<in> set (show_nat n) \<Longrightarrow> is_dec c"
proof (induction n arbitrary: c rule: show_nat.induct)
  case (1 n)
  show ?case
  proof (cases "n < 10")
    case True
    with "1.prems" show ?thesis by (simp add: show_nat.simps [of n] digit_char_dec)
  next
    case False
    with "1.prems" "1.IH" show ?thesis
      by (auto simp: show_nat.simps [of n] digit_char_dec)
  qed
qed

lemma dec_value_snoc: "dec_value (ds @ [c]) = dec_value ds * 10 + ((of_char c :: nat) - 48)"
  by (simp add: dec_value_def)

lemma dec_value_show_nat: "dec_value (show_nat n) = n"
proof (induction n rule: show_nat.induct)
  case (1 n)
  show ?case
  proof (cases "n < 10")
    case True
    then show ?thesis by (simp add: show_nat.simps [of n] dec_value_def digit_char_value)
  next
    case False
    with "1.IH" show ?thesis
      by (simp add: show_nat.simps [of n] dec_value_snoc digit_char_value)
  qed
qed

lemma hd_show_nat_pos: "0 < n \<Longrightarrow> hd (show_nat n) \<noteq> CHR ''0''"
proof (induction n rule: show_nat.induct)
  case (1 n)
  show ?case
  proof (cases "n < 10")
    case True
    have "digit_char n = CHR ''0'' \<Longrightarrow> n = 0"
    proof -
      assume "digit_char n = CHR ''0''"
      then have "(of_char (digit_char n) :: nat) = of_char CHR ''0''" by simp
      with True show "n = 0" by (simp add: digit_char_def)
    qed
    with True "1.prems" show ?thesis by (auto simp: show_nat.simps [of n])
  next
    case False
    then have "0 < n div 10" by simp
    with "1.IH" False show ?thesis
      by (simp add: show_nat.simps [of n] show_nat_nonempty)
  qed
qed

lemma show_nat_no_leading_zero: "hd (show_nat n) = CHR ''0'' \<Longrightarrow> length (show_nat n) = 1"
proof (cases "n = 0")
  case True
  then show ?thesis by (simp add: show_nat.simps [of 0])
next
  case False
  assume "hd (show_nat n) = CHR ''0''"
  with hd_show_nat_pos [of n] False show ?thesis by simp
qed

lemma hd_show_nat_not_minus: "hd (show_nat n) \<noteq> CHR ''-''"
proof -
  have "hd (show_nat n) \<in> set (show_nat n)" using show_nat_nonempty by simp
  then have "is_dec (hd (show_nat n))" by (rule show_nat_digits)
  then show ?thesis by (auto simp: is_dec_def)
qed

lemma delim_not_dec: "delim rest \<Longrightarrow> rest \<noteq> [] \<Longrightarrow> \<not> is_dec (hd rest)"
  by (auto simp: delim_def is_dec_def newline_def)

lemma takeWhile_digits:
  "(\<And>c. c \<in> set ds \<Longrightarrow> is_dec c) \<Longrightarrow> delim rest \<Longrightarrow> takeWhile is_dec (ds @ rest) = ds"
proof (cases rest)
  case Nil
  assume "\<And>c. c \<in> set ds \<Longrightarrow> is_dec c"
  with Nil show ?thesis by simp
next
  case (Cons x xs)
  assume ds: "\<And>c. c \<in> set ds \<Longrightarrow> is_dec c" and "delim rest"
  with Cons delim_not_dec [of rest] have "\<not> is_dec x" by simp
  with ds Cons show ?thesis by (simp add: takeWhile_tail)
qed

lemma dropWhile_digits:
  "(\<And>c. c \<in> set ds \<Longrightarrow> is_dec c) \<Longrightarrow> delim rest \<Longrightarrow> dropWhile is_dec (ds @ rest) = rest"
proof (cases rest)
  case Nil
  assume "\<And>c. c \<in> set ds \<Longrightarrow> is_dec c"
  with Nil show ?thesis by simp
next
  case (Cons x xs)
  assume ds: "\<And>c. c \<in> set ds \<Longrightarrow> is_dec c" and "delim rest"
  with Cons delim_not_dec [of rest] have "\<not> is_dec x" by simp
  with ds Cons show ?thesis by (simp add: dropWhile_append2)
qed

lemma delim_not_fraction:
  "delim rest \<Longrightarrow> \<not> (rest \<noteq> [] \<and> (hd rest = CHR ''.'' \<or> hd rest = CHR ''e'' \<or> hd rest = CHR ''E''))"
  by (auto simp: delim_def newline_def)

lemma parse_number_show_int:
  assumes "delim rest"
  shows "parse_number (show_int i @ rest) = Some (JNum i, rest)"
proof -
  let ?m = "nat \<bar>i\<bar>"
  let ?ds = "show_nat ?m"
  have digs: "\<And>c. c \<in> set ?ds \<Longrightarrow> is_dec c" by (rule show_nat_digits)
  have tw: "takeWhile is_dec (?ds @ rest) = ?ds" using takeWhile_digits [OF digs assms] .
  have dw: "dropWhile is_dec (?ds @ rest) = rest" using dropWhile_digits [OF digs assms] .
  have lead: "\<not> (hd ?ds = CHR ''0'' \<and> 1 < length ?ds)"
    using show_nat_no_leading_zero [of ?m] by auto
  note frac = delim_not_fraction [OF assms]
  show ?thesis
  proof (cases "i < 0")
    case True
    then have s: "show_int i @ rest = CHR ''-'' # ?ds @ rest"
      by (simp add: show_int_def abs_if)
    show ?thesis
      unfolding s parse_number_def using True tw dw lead frac
      by (simp add: Let_def show_nat_nonempty dec_value_show_nat)
  next
    case False
    then have s: "show_int i @ rest = ?ds @ rest"
      by (simp add: show_int_def abs_if)
    have nm: "\<not> (?ds @ rest \<noteq> [] \<and> hd (?ds @ rest) = CHR ''-'')"
      using hd_show_nat_not_minus [of ?m] show_nat_nonempty [of ?m] by simp
    show ?thesis
      unfolding s parse_number_def using False tw dw lead frac nm
      by (simp add: Let_def show_nat_nonempty dec_value_show_nat)
  qed
qed

lemma hex_value_hex_char: "d < 16 \<Longrightarrow> hex_value (hex_char d) = Some d"
  by (simp add: hex_value_def hex_char_def Let_def)

lemma char_of_code: "(of_char c :: nat) = of_char d \<Longrightarrow> c = d"
  by (simp only: of_char_eq_iff)

lemma unicode_escape_control:
  "n < 32 \<Longrightarrow> unicode_escape [CHR ''0'', CHR ''0'', hex_char (n div 16), hex_char (n mod 16)]
     = Some [char_of n]"
proof -
  assume n: "n < 32"
  then have a: "n div 16 < 16" and b: "n mod 16 < 16" by simp_all
  have z: "hex_value CHR ''0'' = Some 0" by (simp add: hex_value_def)
  have "((0 * 16 + 0) * 16 + n div 16) * 16 + n mod 16 = n" by simp
  with n show ?thesis
    by (simp add: unicode_escape_def z hex_value_hex_char [OF a] hex_value_hex_char [OF b] utf8_def)
qed

lemma parse_chars_escape:
  "parse_chars (escape_char c @ tail)
     = (case parse_chars tail of None \<Rightarrow> None | Some (str, rest) \<Rightarrow> Some (c # str, rest))"
proof -
  let ?n = "of_char c :: nat"
  consider (q) "c = dquote" | (b) "c = backslash"
    | (s) "c \<noteq> dquote" "c \<noteq> backslash" "?n = 8 \<or> ?n = 12 \<or> ?n = 10 \<or> ?n = 13 \<or> ?n = 9"
    | (u) "c \<noteq> dquote" "c \<noteq> backslash" "?n \<noteq> 8" "?n \<noteq> 12" "?n \<noteq> 10" "?n \<noteq> 13" "?n \<noteq> 9" "?n < 32"
    | (l) "c \<noteq> dquote" "c \<noteq> backslash" "\<not> ?n < 32"
    by linarith
  then show ?thesis
  proof cases
    case q
    then show ?thesis
      by (simp add: escape_char_def parse_chars.simps simple_escape_def
          dquote_def backslash_def split: option.splits)
  next
    case b
    then show ?thesis
      by (simp add: escape_char_def parse_chars.simps simple_escape_def
          dquote_def backslash_def split: option.splits)
  next
    case s
    from s(3) have "c = CHR 0x08 \<or> c = CHR 0x0C \<or> c = CHR 0x0A \<or> c = CHR 0x0D \<or> c = CHR 0x09"
      using char_of_code [of c "CHR 0x08"] char_of_code [of c "CHR 0x0C"] char_of_code [of c "CHR 0x0A"]
        char_of_code [of c "CHR 0x0D"] char_of_code [of c "CHR 0x09"]
      by auto
    then show ?thesis
      by (auto simp: escape_char_def parse_chars.simps simple_escape_def
          dquote_def backslash_def split: option.splits)
  next
    case u
    have esc: "escape_char c = [backslash, CHR ''u'', CHR ''0'', CHR ''0'', hex_char (?n div 16),
        hex_char (?n mod 16)]"
      using u by (simp add: escape_char_def Let_def)
    have "unicode_escape [CHR ''0'', CHR ''0'', hex_char (?n div 16), hex_char (?n mod 16)] = Some [c]"
      using unicode_escape_control [OF u(8)] by simp
    then show ?thesis
      unfolding esc by (simp add: parse_chars.simps dquote_def backslash_def split: option.splits)
  next
    case l
    then show ?thesis
      by (simp add: escape_char_def Let_def parse_chars.simps split: option.splits)
  qed
qed

lemma parse_chars_escaped:
  "parse_chars (concat (map escape_char s) @ dquote # rest) = Some (s, rest)"
proof (induction s)
  case Nil
  show ?case by (simp add: parse_chars.simps)
next
  case (Cons c s)
  then show ?case by (simp add: parse_chars_escape)
qed

lemma skip_ws_prefix: "all_ws ws \<Longrightarrow> skip_ws (ws @ s) = skip_ws s"
  by (simp add: skip_ws_def all_ws_def dropWhile_append2)

lemma skip_ws_token: "\<not> is_json_ws c \<Longrightarrow> skip_ws (c # s) = c # s"
  by (simp add: skip_ws_def)

lemma all_ws_spaces: "all_ws (spaces n)"
  by (simp add: all_ws_def spaces_def is_json_ws_def)

lemma all_ws_newline: "all_ws [newline]"
  by (simp add: all_ws_def is_json_ws_def)

lemma all_ws_append: "all_ws a \<Longrightarrow> all_ws b \<Longrightarrow> all_ws (a @ b)"
  by (auto simp: all_ws_def)

lemma parse_value_prefix: "all_ws ws \<Longrightarrow> parse_value (ws @ s) = parse_value s"
  by (simp add: parse_value.simps(1) [of "ws @ s"] parse_value.simps(1) [of s] skip_ws_prefix)

lemma is_dec_opens: "is_dec c \<Longrightarrow> opens_value c"
  by (auto simp: is_dec_def opens_value_def is_json_ws_def newline_def)

lemma show_int_hd: "\<exists>c r. show_int i = c # r \<and> (c = CHR ''-'' \<or> is_dec c)"
proof (cases "i < 0")
  case True
  then show ?thesis by (simp add: show_int_def)
next
  case False
  obtain c r where cr: "show_nat (nat i) = c # r"
    using show_nat_nonempty [of "nat i"] by (cases "show_nat (nat i)") auto
  then have "is_dec c" using show_nat_digits [of c "nat i"] by simp
  with False cr show ?thesis by (simp add: show_int_def)
qed

lemma stringify_hd: "\<exists>c r. stringify_at ind v = c # r \<and> opens_value c"
proof (cases v)
  case (JNum i)
  obtain c r where "show_int i = c # r" "c = CHR ''-'' \<or> is_dec c" using show_int_hd by blast
  with JNum show ?thesis
    by (auto simp: is_dec_opens) (simp add: opens_value_def is_json_ws_def newline_def)
qed (auto simp: opens_value_def is_json_ws_def newline_def quote_def dquote_def)

lemma parse_value_atoms:
  assumes "delim rest"
  shows "parse_value (stringify_at ind JNull @ rest) = Some (JNull, rest)"
    and "parse_value (stringify_at ind (JBool b) @ rest) = Some (JBool b, rest)"
    and "parse_value (stringify_at ind (JStr s) @ rest) = Some (JStr s, rest)"
    and "parse_value (stringify_at ind (JArr []) @ rest) = Some (JArr [], rest)"
    and "parse_value (stringify_at ind (JObj []) @ rest) = Some (JObj [], rest)"
proof -
  show "parse_value (stringify_at ind JNull @ rest) = Some (JNull, rest)"
    by (subst parse_value.simps(1)) (simp add: skip_ws_def is_json_ws_def newline_def expect_def)
  show "parse_value (stringify_at ind (JBool b) @ rest) = Some (JBool b, rest)"
    by (subst parse_value.simps(1)) (simp add: skip_ws_def is_json_ws_def newline_def expect_def)
  show "parse_value (stringify_at ind (JStr s) @ rest) = Some (JStr s, rest)"
    by (subst parse_value.simps(1))
      (simp add: quote_def skip_ws_def is_json_ws_def newline_def dquote_def [symmetric]
        parse_chars_escaped,
       simp add: dquote_def)
  show "parse_value (stringify_at ind (JArr []) @ rest) = Some (JArr [], rest)"
    by (subst parse_value.simps(1)) (simp add: skip_ws_def is_json_ws_def newline_def dquote_def)
  show "parse_value (stringify_at ind (JObj []) @ rest) = Some (JObj [], rest)"
    by (subst parse_value.simps(1)) (simp add: skip_ws_def is_json_ws_def newline_def dquote_def)
qed

lemma parse_value_number:
  assumes "delim rest"
  shows "parse_value (stringify_at ind (JNum i) @ rest) = Some (JNum i, rest)"
proof -
  obtain c r where cr: "show_int i = c # r" and c: "c = CHR ''-'' \<or> is_dec c"
    using show_int_hd by blast
  from c have ws: "\<not> is_json_ws c" and other: "c \<noteq> CHR ''n''" "c \<noteq> CHR ''t''" "c \<noteq> CHR ''f''"
      "c \<noteq> dquote" "c \<noteq> CHR ''[''" "c \<noteq> CHR ''{''"
    by (auto simp: is_dec_def is_json_ws_def newline_def dquote_def)
  have "parse_value (stringify_at ind (JNum i) @ rest) = parse_number (c # r @ rest)"
    by (subst parse_value.simps(1)) (simp add: cr skip_ws_token [OF ws] other)
  also have "\<dots> = Some (JNum i, rest)"
    using parse_number_show_int [OF assms, of i] by (simp add: cr)
  finally show ?thesis .
qed

lemma delim_comma: "delim (CHR '','' # s)" and delim_newline: "delim (newline # s)"
  by (simp_all add: delim_def)

lemma skip_ws_close:
  "skip_ws (newline # spaces ind @ c # rest) = skip_ws (c # rest)"
  using skip_ws_prefix [of "newline # spaces ind" "c # rest"] all_ws_append [OF all_ws_newline all_ws_spaces]
  by simp

lemma parse_elements_join:
  "(\<And>x k rest. x \<in> set xs \<Longrightarrow> delim rest \<Longrightarrow> parse_value (stringify_at k x @ rest) = Some (x, rest))
   \<Longrightarrow> xs \<noteq> [] \<Longrightarrow> all_ws ws0
   \<Longrightarrow> parse_elements (ws0 @ join_members (map (\<lambda>x. spaces k @ stringify_at k x) xs)
                          @ newline # spaces ind @ CHR '']'' # rest) = Some (xs, rest)"
proof (induction xs arbitrary: ws0)
  case Nil
  then show ?case by simp
next
  case (Cons x xs)
  let ?close = "newline # spaces ind @ CHR '']'' # rest"
  have pv: "parse_value (ws0 @ spaces k @ stringify_at k x @ R) = Some (x, R)" if "delim R" for R
  proof -
    have "parse_value ((ws0 @ spaces k) @ stringify_at k x @ R) = parse_value (stringify_at k x @ R)"
      by (rule parse_value_prefix) (rule all_ws_append [OF Cons.prems(3) all_ws_spaces])
    with Cons.prems(1) [of x R k] that show ?thesis by simp
  qed
  show ?case
  proof (cases xs)
    case Nil
    have s: "ws0 @ join_members (map (\<lambda>x. spaces k @ stringify_at k x) (x # xs)) @ ?close
        = ws0 @ spaces k @ stringify_at k x @ ?close"
      using Nil by simp
    have close: "skip_ws ?close = CHR '']'' # rest"
    proof -
      have "skip_ws ?close = skip_ws (CHR '']'' # rest)" by (rule skip_ws_close)
      also have "\<dots> = CHR '']'' # rest"
        by (rule skip_ws_token) (simp add: is_json_ws_def newline_def)
      finally show ?thesis .
    qed
    show ?thesis
      unfolding s
      by (subst parse_elements.simps) (simp add: pv [OF delim_newline] close Nil)
  next
    case (Cons y ys)
    let ?tail = "newline # join_members (map (\<lambda>x. spaces k @ stringify_at k x) xs) @ ?close"
    have s: "ws0 @ join_members (map (\<lambda>x. spaces k @ stringify_at k x) (x # xs)) @ ?close
        = ws0 @ spaces k @ stringify_at k x @ CHR '','' # ?tail"
      using Cons by simp
    have comma: "skip_ws (CHR '','' # ?tail) = CHR '','' # ?tail"
      by (rule skip_ws_token) (simp add: is_json_ws_def newline_def)
    have guard: "length ?tail < length (ws0 @ spaces k @ stringify_at k x @ CHR '','' # ?tail)"
      by simp
    have ih: "parse_elements ?tail = Some (xs, rest)"
      using Cons.IH [of "[newline]"] Cons.prems(1) Cons all_ws_newline by simp
    show ?thesis
      unfolding s
      by (subst parse_elements.simps) (simp add: pv [OF delim_comma] comma guard ih)
  qed
qed

lemma parse_members_join:
  "(\<And>kv k rest. kv \<in> set kvs \<Longrightarrow> delim rest
       \<Longrightarrow> parse_value (stringify_at k (snd kv) @ rest) = Some (snd kv, rest))
   \<Longrightarrow> kvs \<noteq> [] \<Longrightarrow> all_ws ws0
   \<Longrightarrow> parse_members (ws0 @ join_members
                            (map (\<lambda>kv. spaces k @ quote (fst kv) @ '': '' @ stringify_at k (snd kv)) kvs)
                          @ newline # spaces ind @ CHR ''}'' # rest) = Some (kvs, rest)"
proof (induction kvs arbitrary: ws0)
  case Nil
  then show ?case by simp
next
  case (Cons kv kvs)
  obtain key x where kv: "kv = (key, x)" by (cases kv)
  let ?close = "newline # spaces ind @ CHR ''}'' # rest"
  let ?str = "concat (map escape_char key)"
  have member: "spaces k @ quote (fst kv) @ '': '' @ stringify_at k (snd kv) @ R
      = spaces k @ dquote # ?str @ dquote # CHR '':'' # CHR '' '' # stringify_at k x @ R" for R
    by (simp add: kv quote_def)
  have skip0: "skip_ws (ws0 @ spaces k @ dquote # S) = dquote # S" for S
  proof -
    have "skip_ws ((ws0 @ spaces k) @ dquote # S) = skip_ws (dquote # S)"
      by (rule skip_ws_prefix) (rule all_ws_append [OF Cons.prems(3) all_ws_spaces])
    then show ?thesis by (simp add: skip_ws_def is_json_ws_def dquote_def newline_def)
  qed
  have colon: "skip_ws (CHR '':'' # S) = CHR '':'' # S" for S
    by (rule skip_ws_token) (simp add: is_json_ws_def newline_def)
  have pv: "parse_value (CHR '' '' # stringify_at k x @ R) = Some (x, R)" if "delim R" for R
  proof -
    have "all_ws [CHR '' '']" by (simp add: all_ws_def is_json_ws_def)
    then have "parse_value ([CHR '' ''] @ stringify_at k x @ R) = parse_value (stringify_at k x @ R)"
      by (rule parse_value_prefix)
    with Cons.prems(1) [of kv R k] that show ?thesis by (simp add: kv)
  qed
  show ?case
  proof (cases kvs)
    case Nil
    have s: "ws0 @ join_members
          (map (\<lambda>kv. spaces k @ quote (fst kv) @ '': '' @ stringify_at k (snd kv)) (kv # kvs)) @ ?close
        = ws0 @ spaces k @ dquote # ?str @ dquote # CHR '':'' # CHR '' '' # stringify_at k x @ ?close"
      using Nil member [of ?close] by simp
    have close: "skip_ws ?close = CHR ''}'' # rest"
    proof -
      have "skip_ws ?close = skip_ws (CHR ''}'' # rest)" by (rule skip_ws_close)
      also have "\<dots> = CHR ''}'' # rest"
        by (rule skip_ws_token) (simp add: is_json_ws_def newline_def)
      finally show ?thesis .
    qed
    have guard: "length (CHR '' '' # stringify_at k x @ ?close)
        < length (ws0 @ spaces k @ dquote # ?str @ dquote # CHR '':'' # CHR '' '' # stringify_at k x @ ?close)"
      by simp
    show ?thesis
      unfolding s
      by (subst parse_members.simps)
        (simp add: skip0 parse_chars_escaped colon guard pv [OF delim_newline] close Nil kv
         )
  next
    case (Cons kv' kvs')
    let ?tail = "newline # join_members
          (map (\<lambda>kv. spaces k @ quote (fst kv) @ '': '' @ stringify_at k (snd kv)) kvs) @ ?close"
    have s: "ws0 @ join_members
          (map (\<lambda>kv. spaces k @ quote (fst kv) @ '': '' @ stringify_at k (snd kv)) (kv # kvs)) @ ?close
        = ws0 @ spaces k @ dquote # ?str @ dquote # CHR '':'' # CHR '' '' # stringify_at k x
            @ CHR '','' # ?tail"
      using Cons member [of "CHR '','' # ?tail"] by simp
    have comma: "skip_ws (CHR '','' # ?tail) = CHR '','' # ?tail"
      by (rule skip_ws_token) (simp add: is_json_ws_def newline_def)
    have guard1: "length (CHR '' '' # stringify_at k x @ CHR '','' # ?tail)
        < length (ws0 @ spaces k @ dquote # ?str @ dquote # CHR '':'' # CHR '' '' # stringify_at k x
            @ CHR '','' # ?tail)"
      by simp
    have guard2: "length ?tail
        < length (ws0 @ spaces k @ dquote # ?str @ dquote # CHR '':'' # CHR '' '' # stringify_at k x
            @ CHR '','' # ?tail)"
      by simp
    have ih: "parse_members ?tail = Some (kvs, rest)"
      using Cons.IH [of "[newline]"] Cons.prems(1) Cons all_ws_newline by simp
    have comma': "skip_ws (CHR '','' # S) = CHR '','' # S" for S
      by (rule skip_ws_token) (simp add: is_json_ws_def newline_def)
    show ?thesis
      unfolding s using ih
      by (subst parse_members.simps)
        (simp add: skip0 parse_chars_escaped colon pv [OF delim_comma] comma' kv)
  qed
qed

lemma parse_value_stringify:
  "delim rest \<Longrightarrow> parse_value (stringify_at ind v @ rest) = Some (v, rest)"
proof (induction v arbitrary: ind rest)
  case JNull
  then show ?case by (rule parse_value_atoms)
next
  case (JBool b)
  then show ?case by (rule parse_value_atoms)
next
  case (JNum i)
  then show ?case by (rule parse_value_number)
next
  case (JStr s)
  then show ?case by (rule parse_value_atoms)
next
  case (JArr xs)
  show ?case
  proof (cases "xs = []")
    case True
    from JArr.prems show ?thesis unfolding True by (rule parse_value_atoms)
  next
    case False
    then obtain x xs' where xs: "xs = x # xs'" by (cases xs) auto
    let ?body = "join_members (map (\<lambda>x. spaces (ind + 2) @ stringify_at (ind + 2) x) xs)
                   @ newline # spaces ind @ CHR '']'' # rest"
    have s: "stringify_at ind (JArr xs) @ rest = CHR ''['' # newline # ?body"
      using False by simp
    obtain c r where first: "stringify_at (ind + 2) x = c # r" and c: "opens_value c"
      using stringify_hd by blast
    have "skip_ws (([newline] @ spaces (ind + 2)) @ stringify_at (ind + 2) x @ R)
        = skip_ws (stringify_at (ind + 2) x @ R)" for R
      by (rule skip_ws_prefix) (rule all_ws_append [OF all_ws_newline all_ws_spaces])
    then have look: "\<exists>R. skip_ws (newline # ?body) = c # R"
      using first c skip_ws_token [of c] by (cases xs') (auto simp: xs opens_value_def)
    have elems: "parse_elements ([newline] @ ?body) = Some (xs, rest)"
      by (rule parse_elements_join) (use JArr.IH False all_ws_newline in auto)
    from look obtain R where R: "skip_ws (newline # ?body) = c # R" by blast
    show ?thesis
      unfolding s using elems R c
      by (subst parse_value.simps(1))
        (simp add: skip_ws_def is_json_ws_def newline_def dquote_def opens_value_def)
  qed
next
  case (JObj kvs)
  show ?case
  proof (cases "kvs = []")
    case True
    from JObj.prems show ?thesis unfolding True by (rule parse_value_atoms)
  next
    case False
    then obtain kv kvs' where kvs: "kvs = kv # kvs'" by (cases kvs) auto
    let ?body = "join_members
          (map (\<lambda>kv. spaces (ind + 2) @ quote (fst kv) @ '': '' @ stringify_at (ind + 2) (snd kv)) kvs)
          @ newline # spaces ind @ CHR ''}'' # rest"
    have s: "stringify_at ind (JObj kvs) @ rest = CHR ''{'' # newline # ?body"
      using False by simp
    have "skip_ws (([newline] @ spaces (ind + 2)) @ dquote # R) = skip_ws (dquote # R)" for R
      by (rule skip_ws_prefix) (rule all_ws_append [OF all_ws_newline all_ws_spaces])
    then have look: "\<exists>R. skip_ws (newline # ?body) = dquote # R"
      using skip_ws_token [of dquote]
      by (cases kvs') (auto simp: kvs quote_def is_json_ws_def dquote_def newline_def)
    have members: "parse_members ([newline] @ ?body) = Some (kvs, rest)"
    proof (rule parse_members_join)
      fix kv k rest
      assume mem: "kv \<in> set kvs" and d: "delim rest"
      obtain a b where kv: "kv = (a, b)" by (cases kv)
      have "b \<in> Basic_BNFs.snds kv" by (simp add: kv)
      from JObj.IH [OF mem this d, of k]
      show "parse_value (stringify_at k (snd kv) @ rest) = Some (snd kv, rest)"
        by (simp add: kv)
    qed (use False all_ws_newline in auto)
    from look obtain R where R: "skip_ws (newline # ?body) = dquote # R" by blast
    show ?thesis
      unfolding s using members R
      by (subst parse_value.simps(1))
        (simp add: skip_ws_def is_json_ws_def newline_def dquote_def)
  qed
qed

lemma JSON_roundtrip: "JSON_parse (JSON_stringify v) = Some v"
  using parse_value_stringify [of "[]" 0 v]
  by (simp add: JSON_parse_def JSON_stringify_def delim_def skip_ws_def)

lemma finish_written:
  "fst (finish W A) = Inr () \<Longrightarrow>
   written (trace (snd (finish W A)))
     = written (trace A) @ [(outputFile (config A), JSON_stringify (output_of W A))]"
  by (auto simp: finish_def saveResults_def printSummary_def Let_def written_append
      split: option.splits)

lemma output_of_finish: "output_of W (snd (finish W A)) = output_of W A"
  by (simp add: output_of_def finish_fields)

lemma output_of_fields:
  "\<exists>metadata. js_get (output_of W P) ''metadata'' = Some metadata
      \<and> js_get metadata ''totalImages'' = Some (JNum (int (totalCount P)))
      \<and> js_get metadata ''successfulCount'' = Some (JNum (int (length (results P))))
      \<and> js_get metadata ''errorCount'' = Some (JNum (int (length (errors P))))
      \<and> js_get metadata ''model'' = Some (JStr (model (config P)))
      \<and> js_get metadata ''prompt'' = Some (JStr (prompt (config P)))"
  by (simp add: output_of_def)

section \<open>Facts about the sample worlds\<close>

lemma cfg7: "concurrency (CONFIG env7) = 3" "batchDelay (CONFIG env7) = 100"
  "apiKey (CONFIG env7) = Some ''sk-test''" "imagesDir (CONFIG env7) = ''./images''"
  by (simp_all add: CONFIG_def env7_def or_num_def or_str_def parseInt_def is_ws_def
      parse_magnitude_def is_digit_def digit_val_def digits_value_def)

lemma key7: "\<not> key_missing (apiKey (CONFIG env7))"
  by (simp add: cfg7 key_missing_def)

lemma files7_found: "getImageFiles world7 (CONFIG env7) = Inr files7"
  by code_simp

lemma windows7_sizes: "map length (windows 3 files7) = [3, 3, 1]"
  by code_simp

lemma expected7:
  "expected_schedule world7 100 (windows 3 files7) =
     [Dispatch ''./images/a.jpg'', Dispatch ''./images/b.png'', Dispatch ''./images/c.gif'',
      Settled ''./images/a.jpg'', Settled ''./images/b.png'', Settled ''./images/c.gif'',
      BatchDelay 100,
      Dispatch ''./images/d.JPG'', Dispatch ''./images/e.webp'', Dispatch ''./images/f.jpeg'',
      Settled ''./images/d.JPG'', Settled ''./images/e.webp'', Settled ''./images/f.jpeg'',
      BatchDelay 100,
      Dispatch ''./images/g.jpg'', Settled ''./images/g.jpg'']"
  by code_simp

lemma head7:
  "take 9 (trace (run_windows world7 (windows 3 files7)
                    (loop_entry (constructed (CONFIG env7)) files7)))
   = [Console Starting, Console (ReadingFrom ''./images''), Console (Found 7),
      Console (UsingModel ''gpt-4o''),
      Console (PromptIs ''Describe this image in detail, including any text, objects, people, and activities visible.''),
      Console (ConcurrencyIs 3),
      Dispatch ''./images/a.jpg'', Dispatch ''./images/b.png'', Dispatch ''./images/c.gif'']"
  by code_simp

lemma world7_env: "environ world7 = env7" "environ world_empty = env7" "environ world_failing = env7"
  "environ world_nodir = env7" "environ world_nokey = Map.empty" "environ world_neg = env_neg"
  by (simp_all add: world7_def world_empty_def world_failing_def world_nodir_def world_nokey_def
      world_neg_def demo_world_def)

lemma cfg_neg: "concurrency (CONFIG env_neg) = - 1" "batchDelay (CONFIG env_neg) = 1000"
  "\<not> key_missing (apiKey (CONFIG env_neg))"
  by (simp_all add: CONFIG_def env_neg_def or_num_def or_str_def parseInt_def is_ws_def
      parse_magnitude_def is_digit_def digit_val_def digits_value_def key_missing_def)

lemma files5_found: "getImageFiles world_neg (CONFIG env_neg) = Inr files5"
  by code_simp

lemma take_append_exact: "take n xs = ys \<Longrightarrow> length ys = n \<Longrightarrow> take n (xs @ zs) = ys"
  by (metis append_eq_conv_conj append_take_drop_id length_take min.absorb2 nat_le_linear take_all append.assoc)

lemma empty_listing:
  "readdir world_empty (imagesDir (CONFIG (environ world_empty))) = Inr [''notes.txt'', ''README.md'']"
  by (simp add: world_empty_def demo_world_def)

lemma empty_no_match:
  "\<forall>f\<in>set [''notes.txt'', ''README.md''].
      toLowerCase (path_extname world_empty f) \<notin> set (imageExtensions (CONFIG (environ world_empty)))"
  by code_simp

lemma nodir_listing:
  "readdir world_nodir (imagesDir (CONFIG (environ world_nodir)))
     = Inl ''ENOENT: no such file or directory''"
  by (simp add: world_nodir_def demo_world_def)

lemma failing_listing:
  "readdir world_failing (imagesDir (CONFIG (environ world_failing))) = Inr names7"
  by (simp add: world_failing_def demo_world_def)

lemma failing_writes: "\<forall>path document. writeFile world_failing path document = None"
  by (simp add: world_failing_def demo_world_def)

lemma demo_client:
  "newOpenAI (demo_world env names ok) (Some k) = None"
  "newOpenAI (demo_world env names ok) None
     = Some ''The OPENAI_API_KEY environment variable is missing or empty''"
  by (simp_all add: demo_world_def)

lemma blank_env:
  "environ world_blankkey = env_blank" "environ world_blankkey_noimages = env_blank"
  "environ world_nokey_noimages = Map.empty"
  by (simp_all add: world_blankkey_def world_blankkey_noimages_def world_nokey_noimages_def
      demo_world_def)

lemma cfg_blank: "apiKey (CONFIG env_blank) = Some []" "imagesDir (CONFIG env_blank) = ''./images''"
  by (simp_all add: CONFIG_def env_blank_def or_str_def)

lemma cfg_unset: "apiKey (CONFIG Map.empty) = None" "imagesDir (CONFIG Map.empty) = ''./images''"
  by (simp_all add: CONFIG_def or_str_def)

lemma client7:
  "newOpenAI world_empty (apiKey (CONFIG env7)) = None"
  "newOpenAI world_nodir (apiKey (CONFIG env7)) = None"
  "newOpenAI world_failing (apiKey (CONFIG env7)) = None"
  by (simp_all add: cfg7 world_empty_def world_nodir_def world_failing_def demo_client)

lemma client_blank:
  "newOpenAI world_blankkey (apiKey (CONFIG env_blank)) = None"
  "newOpenAI world_blankkey_noimages (apiKey (CONFIG env_blank)) = None"
  by (simp_all add: cfg_blank world_blankkey_def world_blankkey_noimages_def demo_client)

lemma client_unset:
  "newOpenAI world_nokey (apiKey (CONFIG Map.empty))
     = Some ''The OPENAI_API_KEY environment variable is missing or empty''"
  "newOpenAI world_nokey_noimages (apiKey (CONFIG Map.empty))
     = Some ''The OPENAI_API_KEY environment variable is missing or empty''"
  by (simp_all add: cfg_unset world_nokey_def world_nokey_noimages_def demo_client)

lemma outcome7:
  "length (results (run_windows world7 (windows 3 files7)
                      (loop_entry (constructed (CONFIG env7)) files7))) = 7"
  "errors (run_windows world7 (windows 3 files7)
             (loop_entry (constructed (CONFIG env7)) files7)) = []"
  by code_simp+


section \<open>The claims about a run\<close>

text \<open>
  Claim C1. When \<open>process\<close> returns, \<open>processedCount\<close> equals \<open>totalCount\<close> and equals
  the number of results plus the number of errors. The progress lines of the run read
  \<open>[1/n]\<close>, \<open>[2/n]\<close>, ..., \<open>[n/n]\<close> for \<open>n = totalCount\<close>: each settled result adds exactly
  one to \<open>processedCount\<close>, which never exceeds \<open>totalCount\<close>.
\<close>

theorem process_counts:
  "process W (constructed cfg) = Some (r, P) \<longrightarrow>
     processedCount P = totalCount P
   \<and> processedCount P = length (results P) + length (errors P)
   \<and> progress (trace P) = map (\<lambda>k. (k, totalCount P)) [1..<totalCount P + 1]
   \<and> (\<forall>line\<in>set (progress (trace P)). fst line \<le> snd line)
   \<and> (\<forall>p res Q. processedCount (settle W p res Q) = processedCount Q + 1)"
proof (intro impI)
  let ?init = "constructed cfg"
  assume run: "process W ?init = Some (r, P)"
  have P0: "config ?init = cfg" "processedCount ?init = 0" "totalCount ?init = 0" "results ?init = []"
    "errors ?init = []" "trace ?init = []"
    by (simp_all add: constructed_def)
  have main: "processedCount P = totalCount P
     \<and> processedCount P = length (results P) + length (errors P)
     \<and> progress (trace P) = counted 0 (totalCount P) (totalCount P)"
  proof (cases "key_missing (apiKey cfg)")
    case True
    with run process_no_key [of ?init W] P0 show ?thesis by (auto simp: counted_zero)
  next
    case False
    note key = this
    show ?thesis
    proof (cases "getImageFiles W cfg")
      case (Inl message)
      with run key process_no_directory [of ?init W message] P0 show ?thesis
        by (auto simp: counted_zero)
    next
      case (Inr files)
      show ?thesis
      proof (cases "files = []")
        case True
        with run key Inr process_no_images [of ?init W] P0 show ?thesis
          by (auto simp: counted_zero)
      next
        case False
        have pos: "0 < concurrency cfg"
        proof (rule ccontr)
          assume "\<not> 0 < concurrency cfg"
          with process_diverges [of ?init W files] key Inr False P0 run show False by simp
        qed
        let ?ws = "windows (nat (concurrency cfg)) files"
        let ?entry = "loop_entry ?init files"
        let ?after = "run_windows W ?ws ?entry"
        have P: "P = snd (finish W ?after)"
          using process_run [of ?init W files] key Inr False pos P0 run
          by (metis option.inject snd_conv)
        have cat: "length (concat ?ws) = length files"
          using pos by (simp add: concat_windows)
        obtain e0 where e0: "trace ?entry = e0" "progress e0 = []"
          using loop_entry_trace [of ?init files] P0 by auto
        obtain e1 where e1: "trace ?after = trace ?entry @ e1"
            "progress e1 = counted (processedCount ?entry) (length (concat ?ws)) (totalCount ?entry)"
          using run_windows_trace [of W ?ws ?entry] by blast
        obtain e2 where e2: "trace (snd (finish W ?after)) = trace ?after @ e2" "progress e2 = []"
          using finish_trace [of W ?after] by blast
        have "progress (trace P) = counted 0 (length files) (length files)"
          using P e0 e1 e2 cat by (simp add: progress_append loop_entry_fields P0)
        moreover have "totalCount P = length files"
          using P by (simp add: finish_fields run_windows_fields loop_entry_fields)
        moreover have "processedCount P = length files"
          using P cat by (simp add: finish_fields run_windows_fields loop_entry_fields P0)
        moreover have "length (results P) + length (errors P) = length files"
          using P cat run_windows_fields(4) [of W ?ws ?entry]
          by (simp add: finish_fields loop_entry_fields P0)
        ultimately show ?thesis by simp
      qed
    qed
  qed
  then have "progress (trace P) = map (\<lambda>k. (k, totalCount P)) [1..<totalCount P + 1]"
    by (simp add: counted_def)
  moreover have "\<forall>line\<in>set (progress (trace P)). fst line \<le> snd line"
    using main by (auto dest: counted_bound)
  moreover have "\<forall>p res Q. processedCount (settle W p res Q) = processedCount Q + 1"
    by (simp add: settle_fields)
  ultimately show "processedCount P = totalCount P
   \<and> processedCount P = length (results P) + length (errors P)
   \<and> progress (trace P) = map (\<lambda>k. (k, totalCount P)) [1..<totalCount P + 1]
   \<and> (\<forall>line\<in>set (progress (trace P)). fst line \<le> snd line)
   \<and> (\<forall>p res Q. processedCount (settle W p res Q) = processedCount Q + 1)"
    using main by simp
qed

theorem process_counts_witness:
  "\<exists>r P. process world7 (constructed (CONFIG env7)) = Some (r, P)
     \<and> totalCount P = 7
     \<and> processedCount P = 7
     \<and> length (results P) + length (errors P) = 7
     \<and> progress (trace P) = map (\<lambda>k. (k, 7)) [1..<8]"
proof -
  let ?init = "constructed (CONFIG env7)"
  let ?fin = "finish world7 (run_windows world7 (windows 3 files7) (loop_entry ?init files7))"
  have run: "process world7 ?init = Some (fst ?fin, snd ?fin)"
    using process_run [of ?init world7 files7] key7 files7_found
    by (simp add: constructed_def cfg7 files7_def)
  have tot: "totalCount (snd ?fin) = 7"
    by (simp add: finish_fields run_windows_fields loop_entry_fields files7_def)
  from process_counts [of world7 "CONFIG env7" "fst ?fin" "snd ?fin"] run tot
  have "processedCount (snd ?fin) = 7
     \<and> length (results (snd ?fin)) + length (errors (snd ?fin)) = 7
     \<and> progress (trace (snd ?fin)) = map (\<lambda>k. (k, 7)) [1..<8]"
    by simp
  with run tot show ?thesis by blast
qed

text \<open>
  Claim C3 (as amended). For a non-empty item list and a concurrency of at least 1, the
  loop of \<open>process\<close> ends, and its schedule is the one the specification describes:
  the windows are consecutive pieces of the list, in input order, of exactly
  \<open>concurrency\<close> items except for the last, which is not empty and not larger; every
  item of a window is dispatched, then every item of the window settles (in the order the
  world chooses), and only then the next window starts; one wait of \<open>batchDelay\<close> stands
  between two windows and none after the last.
\<close>

theorem scheduler_windows:
  assumes "0 < concurrency (config P)" and "imageFiles \<noteq> []"
  shows "\<exists>P' evs.
           batch_loop W imageFiles 0 P = Some P'
         \<and> trace P' = trace P @ evs
         \<and> schedule evs
             = expected_schedule W (batchDelay (config P))
                 (windows (nat (concurrency (config P))) imageFiles)
         \<and> length (filter is_batch_delay evs)
             = length (windows (nat (concurrency (config P))) imageFiles) - 1
         \<and> concat (windows (nat (concurrency (config P))) imageFiles) = imageFiles
         \<and> (\<forall>w\<in>set (butlast (windows (nat (concurrency (config P))) imageFiles)).
               int (length w) = concurrency (config P))
         \<and> last (windows (nat (concurrency (config P))) imageFiles) \<noteq> []
         \<and> int (length (last (windows (nat (concurrency (config P))) imageFiles)))
             \<le> concurrency (config P)
         \<and> (\<forall>w. mset (settleOrder W w) = mset w)"
proof -
  let ?k = "nat (concurrency (config P))"
  let ?ws = "windows ?k imageFiles"
  let ?P' = "run_windows W ?ws P"
  have kpos: "0 < ?k" using assms(1) by simp
  have loop: "batch_loop W imageFiles 0 P = Some ?P'"
    using batch_loop_windows [OF assms(1), of W imageFiles 0] by simp
  obtain evs where evs: "trace ?P' = trace P @ evs"
      "schedule evs = expected_schedule W (batchDelay (config P)) ?ws"
    using run_windows_trace [of W ?ws P] by blast
  have "filter is_batch_delay evs = filter is_batch_delay (schedule evs)"
    unfolding schedule_def filter_filter
    by (rule filter_cong [OF refl]) (auto elim: is_batch_delay.elims)
  then have delays: "length (filter is_batch_delay evs) = length ?ws - 1"
    using evs(2) by (simp add: expected_schedule_delays)
  have full: "\<forall>w\<in>set (butlast ?ws). int (length w) = concurrency (config P)"
    using windows_full [OF kpos, of _ imageFiles] assms(1) by auto
  have lst: "last ?ws \<noteq> [] \<and> int (length (last ?ws)) \<le> concurrency (config P)"
    using windows_last [OF kpos assms(2)] assms(1) by auto
  show ?thesis
    using loop evs delays concat_windows [OF kpos, of imageFiles] full lst mset_settleOrder
    by blast
qed

theorem scheduler_windows_witness:
  "0 < concurrency (config (constructed (CONFIG env7)))
   \<and> files7 \<noteq> []
   \<and> length files7 = 7
   \<and> map length (windows 3 files7) = [3, 3, 1]
   \<and> (\<exists>P' evs.
         batch_loop world7 files7 0 (constructed (CONFIG env7)) = Some P'
       \<and> trace P' = trace (constructed (CONFIG env7)) @ evs
       \<and> schedule evs =
           [Dispatch ''./images/a.jpg'', Dispatch ''./images/b.png'', Dispatch ''./images/c.gif'',
            Settled ''./images/a.jpg'', Settled ''./images/b.png'', Settled ''./images/c.gif'',
            BatchDelay 100,
            Dispatch ''./images/d.JPG'', Dispatch ''./images/e.webp'', Dispatch ''./images/f.jpeg'',
            Settled ''./images/d.JPG'', Settled ''./images/e.webp'', Settled ''./images/f.jpeg'',
            BatchDelay 100,
            Dispatch ''./images/g.jpg'', Settled ''./images/g.jpg'']
       \<and> length (filter is_batch_delay evs) = 2)"
proof -
  let ?init = "constructed (CONFIG env7)"
  have c: "config ?init = CONFIG env7" by (simp add: constructed_def)
  have pos: "0 < concurrency (config ?init)" by (simp add: c cfg7)
  have ne: "files7 \<noteq> []" and len: "length files7 = 7" by (simp_all add: files7_def)
  have n3: "length (windows 3 files7) = 3"
    using arg_cong [OF windows7_sizes, of length] by simp
  from scheduler_windows [OF pos ne, of world7]
  obtain P' evs where run: "batch_loop world7 files7 0 ?init = Some P'"
    and tr: "trace P' = trace ?init @ evs"
    and sch: "schedule evs = expected_schedule world7 (batchDelay (config ?init))
                 (windows (nat (concurrency (config ?init))) files7)"
    and del: "length (filter is_batch_delay evs)
                 = length (windows (nat (concurrency (config ?init))) files7) - 1"
    by blast
  from sch have sch': "schedule evs = expected_schedule world7 100 (windows 3 files7)"
    by (simp add: c cfg7)
  from del have del': "length (filter is_batch_delay evs) = 2"
    by (simp add: c cfg7 n3)
  from pos ne len windows7_sizes run tr sch' [unfolded expected7] del' show ?thesis by blast
qed

text \<open>
  The claim as stated fails for a negative concurrency: with \<open>CONCURRENCY=-1\<close> and five
  images, the first window is \<open>slice(0, -1)\<close>, four items, the fifth image is never
  dispatched, and the loop never ends.
\<close>

theorem scheduler_windows_counterexample:
  "concurrency (CONFIG env_neg) = - 1
   \<and> getImageFiles world_neg (CONFIG env_neg) = Inr files5
   \<and> length files5 = 5
   \<and> js_slice files5 0 (0 + concurrency (CONFIG env_neg))
        = [''./images/a.jpg'', ''./images/b.jpg'', ''./images/c.jpg'', ''./images/d.jpg'']
   \<and> schedule (trace (loop_body world_neg files5 0 (constructed (CONFIG env_neg))))
        = [Dispatch ''./images/a.jpg'', Dispatch ''./images/b.jpg'', Dispatch ''./images/c.jpg'',
           Dispatch ''./images/d.jpg'',
           Settled ''./images/a.jpg'', Settled ''./images/b.jpg'', Settled ''./images/c.jpg'',
           Settled ''./images/d.jpg'',
           BatchDelay 1000]
   \<and> batch_loop world_neg files5 0 (constructed (CONFIG env_neg)) = None
   \<and> process world_neg (constructed (CONFIG env_neg)) = None"
proof -
  let ?init = "constructed (CONFIG env_neg)"
  have c: "config ?init = CONFIG env_neg" by (simp add: constructed_def)
  have len: "length files5 = 5" by (simp add: files5_def)
  have ne: "files5 \<noteq> []" by (simp add: files5_def)
  have slice: "js_slice files5 0 (0 + concurrency (CONFIG env_neg))
        = [''./images/a.jpg'', ''./images/b.jpg'', ''./images/c.jpg'', ''./images/d.jpg'']"
    by (simp add: cfg_neg js_slice_def files5_def)
  have sched: "schedule (trace (loop_body world_neg files5 0 ?init))
        = [Dispatch ''./images/a.jpg'', Dispatch ''./images/b.jpg'', Dispatch ''./images/c.jpg'',
           Dispatch ''./images/d.jpg'',
           Settled ''./images/a.jpg'', Settled ''./images/b.jpg'', Settled ''./images/c.jpg'',
           Settled ''./images/d.jpg'',
           BatchDelay 1000]"
    by code_simp
  have loop: "batch_loop world_neg files5 0 ?init = None"
    using batch_loop_diverges [of ?init 0 files5 world_neg] by (simp add: c cfg_neg len)
  have run: "process world_neg ?init = None"
    using process_diverges [of ?init world_neg files5] files5_found ne
    by (simp add: c cfg_neg)
  from cfg_neg(1) files5_found len slice sched loop run show ?thesis by simp
qed

text \<open>Items in flight along the expected schedule.\<close>

lemma in_flight_schedule: "in_flight (schedule evs) = in_flight evs"
  unfolding schedule_def by (induction evs rule: in_flight.induct) auto

lemma schedule_take: "\<exists>m. schedule (take n evs) = take m (schedule evs)"
proof (induction evs arbitrary: n)
  case Nil
  show ?case by (simp add: schedule_def)
next
  case (Cons e evs)
  show ?case
  proof (cases n)
    case 0
    then show ?thesis by (intro exI [of _ 0]) (simp add: schedule_def)
  next
    case (Suc n')
    obtain m where m: "schedule (take n' evs) = take m (schedule evs)" using Cons [of n'] by blast
    show ?thesis
    proof (cases "is_sched e")
      case True
      with m Suc show ?thesis by (intro exI [of _ "Suc m"]) (simp add: schedule_def)
    next
      case False
      with m Suc show ?thesis by (intro exI [of _ m]) (simp add: schedule_def)
    qed
  qed
qed

lemma in_flight_Dispatch: "in_flight (take m (map Dispatch w)) = int (min m (length w))"
proof (induction w arbitrary: m)
  case Nil
  show ?case by simp
next
  case (Cons p w)
  then show ?case by (cases m) simp_all
qed

lemma in_flight_Settled: "in_flight (take m (map Settled s)) = - int (min m (length s))"
proof (induction s arbitrary: m)
  case Nil
  show ?case by simp
next
  case (Cons p s)
  then show ?case by (cases m) simp_all
qed

lemma in_flight_window_prefix:
  "0 \<le> in_flight (take m (window_schedule W w)) \<and> in_flight (take m (window_schedule W w)) \<le> int (length w)"
  by (auto simp: window_schedule_def in_flight_append in_flight_Dispatch in_flight_Settled min_def)

lemma in_flight_window: "in_flight (window_schedule W w) = 0"
  using in_flight_Dispatch [of "length w" w] in_flight_Settled [of "length w" "settleOrder W w"]
  by (simp add: window_schedule_def in_flight_append)

lemma in_flight_expected_prefix:
  "(\<And>w. w \<in> set ws \<Longrightarrow> int (length w) \<le> K) \<Longrightarrow>
   0 \<le> in_flight (take m (expected_schedule W d ws)) \<and> in_flight (take m (expected_schedule W d ws)) \<le> max K 0"
proof (induction ws arbitrary: m)
  case Nil
  show ?case by simp
next
  case (Cons w ws)
  have w: "int (length w) \<le> K" using Cons.prems by simp
  have pre: "0 \<le> in_flight (take m (window_schedule W w)) \<and> in_flight (take m (window_schedule W w)) \<le> K" for m
    using in_flight_window_prefix [of m W w] w by simp
  show ?case
  proof (cases "ws = []")
    case True
    with pre [of m] show ?thesis by simp
  next
    case False
    let ?A = "window_schedule W w"
    have ih: "0 \<le> in_flight (take n (expected_schedule W d ws)) \<and> in_flight (take n (expected_schedule W d ws)) \<le> max K 0" for n
      using Cons.IH [of n] Cons.prems by simp
    show ?thesis
    proof (cases "m \<le> length ?A")
      case True
      with pre [of m] False show ?thesis by (simp add: expected_schedule_Cons)
    next
      case False
      then obtain n where n: "m - length ?A = Suc n" by (cases "m - length ?A") auto
      have "take m (expected_schedule W d (w # ws)) = ?A @ BatchDelay d # take n (expected_schedule W d ws)"
        using \<open>ws \<noteq> []\<close> False n by (simp add: expected_schedule_Cons)
      with ih [of n] show ?thesis by (simp add: in_flight_append in_flight_window)
    qed
  qed
qed

text \<open>
  Claim C4 (as amended). With a concurrency \<open>K\<close> of at least 1, \<open>process\<close> returns, and
  after every prefix of the events of the run the number of items in flight is between
  0 and \<open>K\<close>: the bound comes from the size of the windows alone.
\<close>

theorem in_flight_bounded:
  assumes "0 < concurrency cfg"
  shows "\<exists>r P. process W (constructed cfg) = Some (r, P)
           \<and> (\<forall>n. in_flight (take n (trace P)) \<le> concurrency cfg)
           \<and> (\<forall>n. 0 \<le> in_flight (take n (trace P)))"
proof -
  let ?init = "constructed cfg"
  let ?K = "concurrency cfg"
  have P0: "config ?init = cfg" "trace ?init = []" by (simp_all add: constructed_def)
  have bounded: "(\<forall>n. in_flight (take n evs) \<le> ?K) \<and> (\<forall>n. 0 \<le> in_flight (take n evs))"
    if "schedule evs = expected_schedule W d ws" and "\<And>w. w \<in> set ws \<Longrightarrow> int (length w) \<le> ?K"
    for evs d ws
  proof -
    have "0 \<le> in_flight (take n evs) \<and> in_flight (take n evs) \<le> ?K" for n
    proof -
      obtain m where "schedule (take n evs) = take m (schedule evs)" using schedule_take by blast
      then have "in_flight (take n evs) = in_flight (take m (expected_schedule W d ws))"
        using that(1) in_flight_schedule [of "take n evs"] by simp
      with in_flight_expected_prefix [of ws ?K m W d] that(2) assms show ?thesis by simp
    qed
    then show ?thesis by blast
  qed
  have quiet: "(\<forall>n. in_flight (take n evs) \<le> ?K) \<and> (\<forall>n. 0 \<le> in_flight (take n evs))"
    if "schedule evs = []" for evs
    using bounded [of evs 0 "[]"] that by simp
  show ?thesis
  proof (cases "key_missing (apiKey cfg)")
    case True
    have "schedule (trace (emit [Console Starting] ?init)) = []" by (simp add: P0 schedule_def)
    with process_no_key [of ?init W] True P0 quiet show ?thesis by simp
  next
    case False
    note key = this
    show ?thesis
    proof (cases "getImageFiles W cfg")
      case (Inl message)
      have "schedule (trace (emit [Console (ReadingFrom (imagesDir cfg))]
          (emit [Console Starting] ?init))) = []" by (simp add: P0 schedule_def)
      with process_no_directory [of ?init W message] key Inl P0 quiet show ?thesis by simp
    next
      case (Inr files)
      show ?thesis
      proof (cases "files = []")
        case True
        have "schedule (trace (emit [Console NoImagesFound]
           ((emit [Console (ReadingFrom (imagesDir cfg))] (emit [Console Starting] ?init))
              \<lparr> totalCount := 0 \<rparr>))) = []" by (simp add: P0 schedule_def)
        with process_no_images [of ?init W] key Inr True P0 quiet show ?thesis by simp
      next
        case False
        let ?ws = "windows (nat ?K) files"
        let ?entry = "loop_entry ?init files"
        let ?after = "run_windows W ?ws ?entry"
        let ?final = "snd (finish W ?after)"
        have run: "process W ?init = Some (fst (finish W ?after), ?final)"
          using process_run [of ?init W files] key Inr False assms P0 by simp
        obtain e0 where e0: "trace ?entry = e0" "schedule e0 = []"
          using loop_entry_trace [of ?init files] P0 by auto
        obtain e1 where e1: "trace ?after = trace ?entry @ e1"
            "schedule e1 = expected_schedule W (batchDelay (config ?entry)) ?ws"
          using run_windows_trace [of W ?ws ?entry] by blast
        obtain e2 where e2: "trace ?final = trace ?after @ e2" "schedule e2 = []"
          using finish_trace [of W ?after] by blast
        have sched: "schedule (trace ?final) = expected_schedule W (batchDelay (config ?entry)) ?ws"
          using e0 e1 e2 by (simp add: schedule_append)
        have sizes: "\<And>w. w \<in> set ?ws \<Longrightarrow> int (length w) \<le> ?K"
        proof -
          fix w assume "w \<in> set ?ws"
          then have "length w \<le> nat ?K" using windows_sizes [of "nat ?K" w files] assms by simp
          then show "int (length w) \<le> ?K" using assms by linarith
        qed
        from bounded [OF sched sizes] run show ?thesis by blast
      qed
    qed
  qed
qed

theorem in_flight_bounded_witness:
  "0 < concurrency (CONFIG env7)
   \<and> (\<exists>r P. process world7 (constructed (CONFIG env7)) = Some (r, P)
         \<and> in_flight (take 9 (trace P)) = 3
         \<and> in_flight (take 9 (trace P)) \<le> concurrency (CONFIG env7)
         \<and> in_flight (take 10 (trace P)) \<le> concurrency (CONFIG env7)
         \<and> 0 \<le> in_flight (take 10 (trace P)))"
proof -
  let ?init = "constructed (CONFIG env7)"
  let ?after = "run_windows world7 (windows 3 files7) (loop_entry ?init files7)"
  have pos: "0 < concurrency (CONFIG env7)" by (simp add: cfg7)
  from in_flight_bounded [OF pos, of world7]
  obtain r P where run: "process world7 ?init = Some (r, P)"
    and hi: "\<forall>n. in_flight (take n (trace P)) \<le> concurrency (CONFIG env7)"
    and lo: "\<forall>n. 0 \<le> in_flight (take n (trace P))" by blast
  have "process world7 ?init = Some (finish world7 ?after)"
    using process_run [of ?init world7 files7] key7 files7_found
    by (simp add: constructed_def cfg7 files7_def)
  with run have P: "P = snd (finish world7 ?after)" by (metis option.inject snd_conv)
  obtain e2 where "trace P = trace ?after @ e2"
    using finish_trace [of world7 ?after] P by blast
  then have "take 9 (trace P) = take 9 (trace ?after)"
    using take_append_exact [OF head7, of e2] head7 by simp
  then have "in_flight (take 9 (trace P)) = 3" by (simp add: head7)
  with pos run hi lo show ?thesis by blast
qed

text \<open>
  The claim as stated fails for a negative concurrency: with \<open>CONCURRENCY=-1\<close> and five
  images the first iteration of the loop dispatches four items at once.
\<close>

theorem in_flight_bounded_counterexample:
  "concurrency (CONFIG env_neg) = - 1
   \<and> length files5 = 5
   \<and> take 4 (trace (loop_body world_neg files5 0 (constructed (CONFIG env_neg))))
        = [Dispatch ''./images/a.jpg'', Dispatch ''./images/b.jpg'', Dispatch ''./images/c.jpg'',
           Dispatch ''./images/d.jpg'']
   \<and> in_flight (take 4 (trace (loop_body world_neg files5 0 (constructed (CONFIG env_neg))))) = 4
   \<and> \<not> in_flight (take 4 (trace (loop_body world_neg files5 0 (constructed (CONFIG env_neg)))))
        \<le> concurrency (CONFIG env_neg)"
proof -
  have t: "take 4 (trace (loop_body world_neg files5 0 (constructed (CONFIG env_neg))))
        = [Dispatch ''./images/a.jpg'', Dispatch ''./images/b.jpg'', Dispatch ''./images/c.jpg'',
           Dispatch ''./images/d.jpg'']"
    by code_simp
  have len: "length files5 = 5" by (simp add: files5_def)
  from cfg_neg(1) len t show ?thesis by simp
qed

text \<open>
  Claim C5 (as amended). With the API key set, the client built and a directory listing
  that holds no file with a recognised extension, \<open>main\<close> ends with exit code 0;
  \<open>totalCount\<close> is 0, both collections are empty, and nothing is written.
\<close>

theorem zero_images_run:
  assumes "\<not> key_missing (apiKey (CONFIG (environ W)))"
    and "newOpenAI W (apiKey (CONFIG (environ W))) = None"
    and "readdir W (imagesDir (CONFIG (environ W))) = Inr names"
    and "\<forall>f\<in>set names. toLowerCase (path_extname W f)
            \<notin> set (imageExtensions (CONFIG (environ W)))"
  shows "\<exists>P. main W = Some (0, trace P, Some P)
           \<and> totalCount P = 0 \<and> processedCount P = 0 \<and> results P = [] \<and> errors P = []
           \<and> written (trace P) = []
           \<and> trace P = [Console Starting,
                         Console (ReadingFrom (imagesDir (CONFIG (environ W)))),
                         Console NoImagesFound]"
proof -
  let ?init = "constructed (CONFIG (environ W))"
  let ?P = "emit [Console NoImagesFound]
       ((emit [Console (ReadingFrom (imagesDir (config ?init)))] (emit [Console Starting] ?init))
          \<lparr> totalCount := 0 \<rparr>)"
  have cfg: "config ?init = CONFIG (environ W)" by (simp add: constructed_def)
  have none: "getImageFiles W (config ?init) = Inr []"
    using getImageFiles_none [OF assms(3,4)] cfg by simp
  have run: "process W ?init = Some (Inr (), ?P)"
    using process_no_images [of ?init W] assms(1) none cfg by simp
  have "main W = Some (0, trace ?P, Some ?P)"
    using main_normal [OF assms(2) run] .
  moreover have "totalCount ?P = 0" "processedCount ?P = 0" "results ?P = []" "errors ?P = []"
    "trace ?P = [Console Starting, Console (ReadingFrom (imagesDir (CONFIG (environ W)))),
                 Console NoImagesFound]"
    by (simp_all add: constructed_def emit_def)
  moreover from this(5) have "written (trace ?P) = []" by simp
  ultimately show ?thesis by blast
qed

theorem zero_images_run_witness:
  "\<not> key_missing (apiKey (CONFIG (environ world_empty)))
   \<and> newOpenAI world_empty (apiKey (CONFIG (environ world_empty))) = None
   \<and> readdir world_empty (imagesDir (CONFIG (environ world_empty))) = Inr [''notes.txt'', ''README.md'']
   \<and> toLowerCase (path_extname world_empty ''notes.txt'') = ''.txt''
   \<and> toLowerCase (path_extname world_empty ''README.md'') = ''.md''
   \<and> (\<exists>P. main world_empty = Some (0, trace P, Some P)
           \<and> totalCount P = 0 \<and> processedCount P = 0 \<and> results P = [] \<and> errors P = []
           \<and> written (trace P) = []
           \<and> trace P = [Console Starting, Console (ReadingFrom ''./images''), Console NoImagesFound])"
proof -
  have key: "\<not> key_missing (apiKey (CONFIG (environ world_empty)))"
    by (simp add: world7_env key7)
  have client: "newOpenAI world_empty (apiKey (CONFIG (environ world_empty))) = None"
    by (simp add: world7_env client7)
  have ext: "toLowerCase (path_extname world_empty ''notes.txt'') = ''.txt''"
    "toLowerCase (path_extname world_empty ''README.md'') = ''.md''"
    by code_simp+
  have dir: "imagesDir (CONFIG (environ world_empty)) = ''./images''"
    by (simp add: world7_env cfg7)
  from zero_images_run [OF key client empty_listing empty_no_match] key client empty_listing ext dir
  show ?thesis by simp
qed

text \<open>
  Without the key the same directory does not give exit code 0. With the variable unset
  the client library refuses the key and the constructor throws; with the variable set to
  the empty string the client is built and \<open>process\<close> throws at its own check of the key.
  Either way \<open>main\<close> prints the fatal error and ends with exit code 1.
\<close>

theorem zero_images_run_counterexample:
  "readdir world_nokey_noimages (imagesDir (CONFIG (environ world_nokey_noimages)))
      = Inr [''notes.txt'', ''README.md'']
   \<and> toLowerCase (path_extname world_nokey_noimages ''notes.txt'') = ''.txt''
   \<and> toLowerCase (path_extname world_nokey_noimages ''README.md'') = ''.md''
   \<and> apiKey (CONFIG (environ world_nokey_noimages)) = None
   \<and> main world_nokey_noimages
       = Some (1, [Console (FatalError ''The OPENAI_API_KEY environment variable is missing or empty''),
                   Exit 1], None)
   \<and> readdir world_blankkey_noimages (imagesDir (CONFIG (environ world_blankkey_noimages)))
      = Inr [''notes.txt'', ''README.md'']
   \<and> apiKey (CONFIG (environ world_blankkey_noimages)) = Some []
   \<and> newOpenAI world_blankkey_noimages (apiKey (CONFIG (environ world_blankkey_noimages))) = None
   \<and> main world_blankkey_noimages
       = Some (1, [Console Starting,
                   Console (FatalError ''OPENAI_API_KEY is not set in environment variables''),
                   Exit 1],
               Some (emit [Console Starting] (constructed (CONFIG env_blank))))"
proof -
  have dir: "readdir world_nokey_noimages (imagesDir (CONFIG (environ world_nokey_noimages)))
      = Inr [''notes.txt'', ''README.md'']"
    "readdir world_blankkey_noimages (imagesDir (CONFIG (environ world_blankkey_noimages)))
      = Inr [''notes.txt'', ''README.md'']"
    by (simp_all add: world_nokey_noimages_def world_blankkey_noimages_def demo_world_def)
  have ext: "toLowerCase (path_extname world_nokey_noimages ''notes.txt'') = ''.txt''"
    "toLowerCase (path_extname world_nokey_noimages ''README.md'') = ''.md''"
    by code_simp+
  have unset: "main world_nokey_noimages
       = Some (1, [Console (FatalError ''The OPENAI_API_KEY environment variable is missing or empty''),
                   Exit 1], None)"
    using main_throws [of world_nokey_noimages] client_unset(2) by (simp add: blank_env)
  have "key_missing (apiKey (config (constructed (CONFIG env_blank))))"
    by (simp add: constructed_def cfg_blank key_missing_def)
  from process_no_key [OF this, of world_blankkey_noimages]
  have blank: "main world_blankkey_noimages
       = Some (1, [Console Starting,
                   Console (FatalError ''OPENAI_API_KEY is not set in environment variables''),
                   Exit 1],
               Some (emit [Console Starting] (constructed (CONFIG env_blank))))"
    using main_fatal [of world_blankkey_noimages] client_blank(2)
    by (simp add: blank_env emit_def constructed_def)
  from dir ext unset blank client_blank(2) show ?thesis
    by (simp add: blank_env cfg_blank cfg_unset)
qed

text \<open>
  Claim C6. When \<open>process\<close> returns normally with images to process, exactly one file
  has been written, at \<open>outputFile\<close>; parsing the written document gives an object whose
  \<open>metadata.totalImages\<close> is \<open>totalCount\<close>, \<open>metadata.successfulCount\<close> the number of
  results and \<open>metadata.errorCount\<close> the number of errors, and whose \<open>results\<close> and
  \<open>errors\<close> arrays are the two collections.
\<close>

theorem artifact_roundtrip:
  "process W (constructed cfg) = Some (Inr (), P) \<and> totalCount P \<noteq> 0 \<longrightarrow>
     (\<exists>document v metadata.
        written (trace P) = [(outputFile cfg, document)]
      \<and> JSON_parse document = Some v
      \<and> js_get v ''metadata'' = Some metadata
      \<and> js_get metadata ''totalImages'' = Some (JNum (int (totalCount P)))
      \<and> js_get metadata ''successfulCount'' = Some (JNum (int (length (results P))))
      \<and> js_get metadata ''errorCount'' = Some (JNum (int (length (errors P))))
      \<and> js_get v ''results'' = Some (JArr (results P))
      \<and> js_get v ''errors'' = Some (JArr (errors P)))"
proof (intro impI, elim conjE)
  let ?init = "constructed cfg"
  assume run: "process W ?init = Some (Inr (), P)" and tot: "totalCount P \<noteq> 0"
  have init: "config ?init = cfg" "totalCount ?init = 0" "trace ?init = []"
    by (simp_all add: constructed_def)
  have key: "\<not> key_missing (apiKey cfg)"
    using run process_no_key [of ?init W] init by auto
  obtain files where files: "getImageFiles W cfg = Inr files"
    using run key process_no_directory [of ?init W] init by (cases "getImageFiles W cfg") auto
  have ne: "files \<noteq> []"
    using run key files tot process_no_images [of ?init W] init by auto
  have pos: "0 < concurrency cfg"
  proof (rule ccontr)
    assume "\<not> 0 < concurrency cfg"
    with process_diverges [of ?init W files] key files ne init run show False by simp
  qed
  let ?after = "run_windows W (windows (nat (concurrency cfg)) files) (loop_entry ?init files)"
  have fin: "finish W ?after = (Inr (), P)"
    using process_run [of ?init W files] key files ne pos init run by simp
  then have ok: "fst (finish W ?after) = Inr ()" and P: "P = snd (finish W ?after)" by simp_all
  obtain e0 where e0: "trace (loop_entry ?init files) = e0" "written e0 = []"
    using loop_entry_trace [of ?init files] init by auto
  obtain e1 where e1: "trace ?after = trace (loop_entry ?init files) @ e1" "written e1 = []"
    using run_windows_trace [of W _ "loop_entry ?init files"] by blast
  have quiet: "written (trace ?after) = []" using e0 e1 by (simp add: written_append)
  have cfg_after: "config ?after = cfg"
    by (simp add: run_windows_fields loop_entry_fields init)
  let ?doc = "JSON_stringify (output_of W P)"
  have w: "written (trace P) = [(outputFile cfg, ?doc)]"
    using finish_written [OF ok] quiet cfg_after P output_of_finish [of W ?after] by simp
  have p: "JSON_parse ?doc = Some (output_of W P)" by (rule JSON_roundtrip)
  obtain metadata where m: "js_get (output_of W P) ''metadata'' = Some metadata"
      "js_get metadata ''totalImages'' = Some (JNum (int (totalCount P)))"
      "js_get metadata ''successfulCount'' = Some (JNum (int (length (results P))))"
      "js_get metadata ''errorCount'' = Some (JNum (int (length (errors P))))"
    using output_of_fields [of W P] by blast
  have r: "js_get (output_of W P) ''results'' = Some (JArr (results P))"
    and e: "js_get (output_of W P) ''errors'' = Some (JArr (errors P))"
    by (simp_all add: output_of_def)
  from w p m r e show "\<exists>document v metadata.
        written (trace P) = [(outputFile cfg, document)]
      \<and> JSON_parse document = Some v
      \<and> js_get v ''metadata'' = Some metadata
      \<and> js_get metadata ''totalImages'' = Some (JNum (int (totalCount P)))
      \<and> js_get metadata ''successfulCount'' = Some (JNum (int (length (results P))))
      \<and> js_get metadata ''errorCount'' = Some (JNum (int (length (errors P))))
      \<and> js_get v ''results'' = Some (JArr (results P))
      \<and> js_get v ''errors'' = Some (JArr (errors P))"
    by blast
qed

theorem artifact_roundtrip_witness:
  "\<exists>P document v metadata.
      process world7 (constructed (CONFIG env7)) = Some (Inr (), P)
    \<and> totalCount P = 7
    \<and> written (trace P) = [(''./results.json'', document)]
    \<and> JSON_parse document = Some v
    \<and> js_get v ''metadata'' = Some metadata
    \<and> js_get metadata ''totalImages'' = Some (JNum 7)
    \<and> js_get metadata ''successfulCount'' = Some (JNum 7)
    \<and> js_get metadata ''errorCount'' = Some (JNum 0)
    \<and> js_get v ''results'' = Some (JArr (results P))
    \<and> js_get v ''errors'' = Some (JArr [])"
proof -
  let ?init = "constructed (CONFIG env7)"
  let ?after = "run_windows world7 (windows 3 files7) (loop_entry ?init files7)"
  let ?P = "snd (finish world7 ?after)"
  have run: "process world7 ?init = Some (finish world7 ?after)"
    using process_run [of ?init world7 files7] key7 files7_found
    by (simp add: constructed_def cfg7 files7_def)
  have "fst (finish world7 ?after) = Inr ()"
    by (rule finish_Inr) (simp add: world7_def demo_world_def)
  with run have run': "process world7 ?init = Some (Inr (), ?P)"
    by (metis prod.collapse)
  have tot: "totalCount ?P = 7"
    by (simp add: finish_fields run_windows_fields loop_entry_fields files7_def)
  have res: "length (results ?P) = 7" and err: "errors ?P = []"
    using outcome7 by (simp_all add: finish_fields)
  have out: "outputFile (CONFIG env7) = ''./results.json''"
    by (simp add: CONFIG_def env7_def or_str_def)
  from artifact_roundtrip [of world7 "CONFIG env7" ?P] run' tot
  obtain document v metadata where
      "written (trace ?P) = [(outputFile (CONFIG env7), document)]"
      "JSON_parse document = Some v"
      "js_get v ''metadata'' = Some metadata"
      "js_get metadata ''totalImages'' = Some (JNum (int (totalCount ?P)))"
      "js_get metadata ''successfulCount'' = Some (JNum (int (length (results ?P))))"
      "js_get metadata ''errorCount'' = Some (JNum (int (length (errors ?P))))"
      "js_get v ''results'' = Some (JArr (results ?P))"
      "js_get v ''errors'' = Some (JArr (errors ?P))"
    by auto
  with run' tot res err out show ?thesis by (intro exI [of _ ?P]) auto
qed

text \<open>
  Claim C7. \<open>main\<close> ends with a fatal-error line and exit code 1, before any item is
  dispatched, when the API key is missing and when the directory cannot be listed. A
  missing key is caught at one of two places: in the constructor, when the client
  library refuses the key (then the fatal line carries the library's message and is the
  only line printed), and otherwise in \<open>process\<close>, after its first line. Exit code 1
  has no other cause than a constructor that throws, a missing key, a directory that
  cannot be listed and a failed write of the results; with a client library that throws
  only for a missing key, no other cause than the last three. With the client built, the
  key set, the directory listed, writes that succeed and a concurrency of at least 1, the
  program ends with exit code 0 whatever happens to the single items.
\<close>

theorem fatal_errors:
  "(newOpenAI W (apiKey (CONFIG (environ W))) = Some thrown \<longrightarrow>
      main W = Some (1, [Console (FatalError thrown), Exit 1], None))
   \<and> (newOpenAI W (apiKey (CONFIG (environ W))) = None
        \<and> key_missing (apiKey (CONFIG (environ W))) \<longrightarrow>
      (\<exists>P. main W = Some (1, [Console Starting,
                               Console (FatalError ''OPENAI_API_KEY is not set in environment variables''),
                               Exit 1], Some P)
         \<and> processedCount P = 0 \<and> results P = [] \<and> errors P = []))
   \<and> (newOpenAI W (apiKey (CONFIG (environ W))) = None
        \<and> \<not> key_missing (apiKey (CONFIG (environ W)))
        \<and> readdir W (imagesDir (CONFIG (environ W))) = Inl e \<longrightarrow>
      (\<exists>P. main W = Some (1, [Console Starting,
                               Console (ReadingFrom (imagesDir (CONFIG (environ W)))),
                               Console (FatalError (''Failed to read images directory: '' @ e)),
                               Exit 1], Some P)
         \<and> processedCount P = 0 \<and> results P = [] \<and> errors P = []))
   \<and> (key_missing (apiKey (CONFIG (environ W)))
        \<or> readdir W (imagesDir (CONFIG (environ W))) = Inl e \<longrightarrow>
      (\<exists>evs message built.
         main W = Some (1, evs @ [Console (FatalError message), Exit 1], built)
         \<and> schedule evs = [] \<and> written evs = []
         \<and> (\<forall>P. built = Some P \<longrightarrow>
               processedCount P = 0 \<and> results P = [] \<and> errors P = [])))
   \<and> (main W = Some (1, out, Q) \<longrightarrow>
        (\<exists>message. newOpenAI W (apiKey (CONFIG (environ W))) = Some message)
      \<or> key_missing (apiKey (CONFIG (environ W)))
      \<or> (\<exists>e. readdir W (imagesDir (CONFIG (environ W))) = Inl e)
      \<or> (\<exists>document message.
            writeFile W (outputFile (CONFIG (environ W))) document = Some message))
   \<and> ((\<forall>message. newOpenAI W (apiKey (CONFIG (environ W))) = Some message
                    \<longrightarrow> key_missing (apiKey (CONFIG (environ W))))
        \<and> main W = Some (1, out, Q) \<longrightarrow>
        key_missing (apiKey (CONFIG (environ W)))
      \<or> (\<exists>e. readdir W (imagesDir (CONFIG (environ W))) = Inl e)
      \<or> (\<exists>document message.
            writeFile W (outputFile (CONFIG (environ W))) document = Some message))
   \<and> (newOpenAI W (apiKey (CONFIG (environ W))) = None
        \<and> \<not> key_missing (apiKey (CONFIG (environ W)))
        \<and> readdir W (imagesDir (CONFIG (environ W))) = Inr names
        \<and> (\<forall>path document. writeFile W path document = None)
        \<and> 0 < concurrency (CONFIG (environ W)) \<longrightarrow>
      (\<exists>P. main W = Some (0, trace P, Some P) \<and> processedCount P = totalCount P
         \<and> length (results P) + length (errors P) = totalCount P))"
proof -
  let ?cfg = "CONFIG (environ W)"
  let ?init = "constructed ?cfg"
  let ?nokey = "''OPENAI_API_KEY is not set in environment variables''"
  have cfg: "config ?init = ?cfg" by (simp add: constructed_def)
  have init: "processedCount ?init = 0" "results ?init = []" "errors ?init = []" "trace ?init = []"
    by (simp_all add: constructed_def)
  have a: "main W = Some (1, [Console (FatalError thrown), Exit 1], None)"
    if "newOpenAI W (apiKey ?cfg) = Some thrown"
    using main_throws [OF that] .
  have b: "\<exists>P. main W = Some (1, [Console Starting, Console (FatalError ?nokey), Exit 1], Some P)
         \<and> processedCount P = 0 \<and> results P = [] \<and> errors P = []"
    if built: "newOpenAI W (apiKey ?cfg) = None" and nokey: "key_missing (apiKey ?cfg)"
  proof -
    have "process W ?init = Some (Inl ?nokey, emit [Console Starting] ?init)"
      using process_no_key [of ?init W] nokey cfg by simp
    from main_fatal [OF built this] show ?thesis
      by (simp add: emit_def constructed_def)
  qed
  have c: "\<exists>P. main W = Some (1, [Console Starting, Console (ReadingFrom (imagesDir ?cfg)),
                       Console (FatalError (''Failed to read images directory: '' @ e)), Exit 1],
                   Some P)
         \<and> processedCount P = 0 \<and> results P = [] \<and> errors P = []"
    if built: "newOpenAI W (apiKey ?cfg) = None" and key: "\<not> key_missing (apiKey ?cfg)"
      and dir: "readdir W (imagesDir ?cfg) = Inl e"
  proof -
    have "process W ?init = Some (Inl (''Failed to read images directory: '' @ e),
        emit [Console (ReadingFrom (imagesDir (config ?init)))] (emit [Console Starting] ?init))"
      using process_no_directory [of ?init W "''Failed to read images directory: '' @ e"]
        getImageFiles_unreadable [OF dir] key cfg by simp
    from main_fatal [OF built this] show ?thesis
      by (simp add: emit_def constructed_def)
  qed
  have d: "\<exists>evs message built.
         main W = Some (1, evs @ [Console (FatalError message), Exit 1], built)
         \<and> schedule evs = [] \<and> written evs = []
         \<and> (\<forall>P. built = Some P \<longrightarrow> processedCount P = 0 \<and> results P = [] \<and> errors P = [])"
    if cause: "key_missing (apiKey ?cfg) \<or> readdir W (imagesDir ?cfg) = Inl e"
  proof (cases "newOpenAI W (apiKey ?cfg)")
    case (Some refusal)
    from main_throws [OF this]
    have "main W = Some (1, [] @ [Console (FatalError refusal), Exit 1], None)" by simp
    moreover have "schedule [] = []" "written [] = []" by (simp_all add: schedule_def)
    ultimately show ?thesis by blast
  next
    case None
    show ?thesis
    proof (cases "key_missing (apiKey ?cfg)")
      case True
      from b [OF None True] obtain P where
        "main W = Some (1, [Console Starting] @ [Console (FatalError ?nokey), Exit 1], Some P)"
        "processedCount P = 0 \<and> results P = [] \<and> errors P = []"
        by auto
      moreover have "schedule [Console Starting] = []" "written [Console Starting] = []"
        by (simp_all add: schedule_def)
      ultimately show ?thesis by blast
    next
      case False
      with cause have dir: "readdir W (imagesDir ?cfg) = Inl e" by simp
      from c [OF None False dir] obtain P where
        "main W = Some (1, [Console Starting, Console (ReadingFrom (imagesDir ?cfg))]
                 @ [Console (FatalError (''Failed to read images directory: '' @ e)), Exit 1], Some P)"
        "processedCount P = 0 \<and> results P = [] \<and> errors P = []"
        by auto
      moreover have "schedule [Console Starting, Console (ReadingFrom (imagesDir ?cfg))] = []"
        "written [Console Starting, Console (ReadingFrom (imagesDir ?cfg))] = []"
        by (simp_all add: schedule_def)
      ultimately show ?thesis by blast
    qed
  qed
  have f: "(\<exists>message. newOpenAI W (apiKey ?cfg) = Some message)
      \<or> key_missing (apiKey ?cfg) \<or> (\<exists>e. readdir W (imagesDir ?cfg) = Inl e)
      \<or> (\<exists>document message. writeFile W (outputFile ?cfg) document = Some message)"
    if exit1: "main W = Some (1, out, Q)"
  proof (rule ccontr)
    assume "\<not> ?thesis"
    then have built: "newOpenAI W (apiKey ?cfg) = None"
      and key: "\<not> key_missing (apiKey ?cfg)"
      and dir: "\<And>e. readdir W (imagesDir ?cfg) \<noteq> Inl e"
      and wr: "\<And>document. writeFile W (outputFile ?cfg) document = None"
      by (auto simp: not_Some_eq [symmetric] simp del: not_Some_eq not_None_eq)
    from dir obtain files where files: "getImageFiles W ?cfg = Inr files"
      using getImageFiles_Inl [of W ?cfg] by (cases "getImageFiles W ?cfg") auto
    show False
    proof (cases "files = []")
      case True
      with process_no_images [of ?init W] key files cfg
      have "\<exists>P. process W ?init = Some (Inr (), P)" by simp
      then obtain P where "process W ?init = Some (Inr (), P)" ..
      from main_normal [OF built this] exit1 show False by simp
    next
      case False
      show False
      proof (cases "0 < concurrency ?cfg")
        case True
        let ?after = "run_windows W (windows (nat (concurrency ?cfg)) files) (loop_entry ?init files)"
        have run: "process W ?init = Some (finish W ?after)"
          using process_run [of ?init W files] key files False True cfg by simp
        have "config ?after = ?cfg" by (simp add: run_windows_fields loop_entry_fields cfg)
        then have "fst (finish W ?after) = Inr ()" using finish_Inr [of W ?after] wr by simp
        then have "process W ?init = Some (Inr (), snd (finish W ?after))"
          using run by (cases "finish W ?after") simp
        from main_normal [OF built this] exit1 show False by simp
      next
        case neg: False
        with process_diverges [of ?init W files] key files False cfg
        have "process W ?init = None" by simp
        from main_diverges [OF built this] exit1 show False by simp
      qed
    qed
  qed
  have g: "key_missing (apiKey ?cfg) \<or> (\<exists>e. readdir W (imagesDir ?cfg) = Inl e)
      \<or> (\<exists>document message. writeFile W (outputFile ?cfg) document = Some message)"
    if lib: "\<forall>message. newOpenAI W (apiKey ?cfg) = Some message \<longrightarrow> key_missing (apiKey ?cfg)"
      and exit1: "main W = Some (1, out, Q)"
    using f [OF exit1] lib by blast
  have h: "\<exists>P. main W = Some (0, trace P, Some P) \<and> processedCount P = totalCount P
         \<and> length (results P) + length (errors P) = totalCount P"
    if built: "newOpenAI W (apiKey ?cfg) = None"
      and key: "\<not> key_missing (apiKey ?cfg)" and dir: "readdir W (imagesDir ?cfg) = Inr names"
      and wr: "\<forall>path document. writeFile W path document = None" and pos: "0 < concurrency ?cfg"
  proof -
    obtain files where files: "getImageFiles W ?cfg = Inr files"
      using getImageFiles_readable [OF dir] by blast
    show ?thesis
    proof (cases "files = []")
      case True
      let ?P = "emit [Console NoImagesFound]
        ((emit [Console (ReadingFrom (imagesDir (config ?init)))] (emit [Console Starting] ?init))
           \<lparr> totalCount := 0 \<rparr>)"
      have "process W ?init = Some (Inr (), ?P)"
        using process_no_images [of ?init W] key files cfg True by simp
      from main_normal [OF built this]
      have "main W = Some (0, trace ?P, Some ?P)" .
      moreover have "processedCount ?P = totalCount ?P"
        "length (results ?P) + length (errors ?P) = totalCount ?P"
        by (simp_all add: emit_def constructed_def)
      ultimately show ?thesis by blast
    next
      case False
      let ?ws = "windows (nat (concurrency ?cfg)) files"
      let ?after = "run_windows W ?ws (loop_entry ?init files)"
      have run: "process W ?init = Some (finish W ?after)"
        using process_run [of ?init W files] key files False pos cfg by simp
      have ok: "fst (finish W ?after) = Inr ()" using finish_Inr [of W ?after] wr by simp
      have cat: "length (concat ?ws) = length files" using pos by (simp add: concat_windows)
      have "process W ?init = Some (Inr (), snd (finish W ?after))"
        using run ok by (cases "finish W ?after") simp
      from main_normal [OF built this]
      have "main W = Some (0, trace (snd (finish W ?after)), Some (snd (finish W ?after)))" .
      moreover have "processedCount (snd (finish W ?after)) = totalCount (snd (finish W ?after))"
        using cat by (simp add: finish_fields run_windows_fields loop_entry_fields init)
      moreover have "length (results (snd (finish W ?after))) + length (errors (snd (finish W ?after)))
          = totalCount (snd (finish W ?after))"
        using cat run_windows_fields(4) [of W ?ws "loop_entry ?init files"]
        by (simp add: finish_fields run_windows_fields loop_entry_fields init)
      ultimately show ?thesis by blast
    qed
  qed
  show ?thesis
    apply (intro conjI impI)
    subgoal by (rule a)
    subgoal by (rule b) simp_all
    subgoal by (rule c) simp_all
    subgoal by (rule d)
    subgoal by (rule f)
    subgoal by (rule g) simp_all
    subgoal by (rule h) simp_all
    done
qed

theorem fatal_errors_witness:
  "apiKey (CONFIG (environ world_nokey)) = None
   \<and> newOpenAI world_nokey (apiKey (CONFIG (environ world_nokey)))
        = Some ''The OPENAI_API_KEY environment variable is missing or empty''
   \<and> main world_nokey
        = Some (1, [Console (FatalError ''The OPENAI_API_KEY environment variable is missing or empty''),
                    Exit 1], None)
   \<and> (\<exists>evs message built.
         main world_nokey = Some (1, evs @ [Console (FatalError message), Exit 1], built)
         \<and> schedule evs = [] \<and> written evs = [])
   \<and> (key_missing (apiKey (CONFIG (environ world_nokey)))
      \<or> (\<exists>e. readdir world_nokey (imagesDir (CONFIG (environ world_nokey))) = Inl e)
      \<or> (\<exists>document message.
            writeFile world_nokey (outputFile (CONFIG (environ world_nokey))) document = Some message))
   \<and> apiKey (CONFIG (environ world_blankkey)) = Some []
   \<and> newOpenAI world_blankkey (apiKey (CONFIG (environ world_blankkey))) = None
   \<and> key_missing (apiKey (CONFIG (environ world_blankkey)))
   \<and> (\<exists>P. main world_blankkey
              = Some (1, [Console Starting,
                          Console (FatalError ''OPENAI_API_KEY is not set in environment variables''),
                          Exit 1], Some P)
         \<and> processedCount P = 0 \<and> results P = [] \<and> errors P = [])
   \<and> newOpenAI world_nodir (apiKey (CONFIG (environ world_nodir))) = None
   \<and> \<not> key_missing (apiKey (CONFIG (environ world_nodir)))
   \<and> readdir world_nodir (imagesDir (CONFIG (environ world_nodir)))
        = Inl ''ENOENT: no such file or directory''
   \<and> (\<exists>P. main world_nodir
              = Some (1, [Console Starting,
                          Console (ReadingFrom (imagesDir (CONFIG (environ world_nodir)))),
                          Console (FatalError (''Failed to read images directory: ''
                                               @ ''ENOENT: no such file or directory'')),
                          Exit 1], Some P)
         \<and> processedCount P = 0 \<and> results P = [] \<and> errors P = [])
   \<and> newOpenAI world_failing (apiKey (CONFIG (environ world_failing))) = None
   \<and> \<not> key_missing (apiKey (CONFIG (environ world_failing)))
   \<and> readdir world_failing (imagesDir (CONFIG (environ world_failing))) = Inr names7
   \<and> 0 < concurrency (CONFIG (environ world_failing))
   \<and> attempt_fails world_failing (CONFIG (environ world_failing)) ''./images/a.jpg'' 3
   \<and> (\<exists>P. main world_failing = Some (0, trace P, Some P) \<and> processedCount P = totalCount P
         \<and> length (results P) + length (errors P) = totalCount P)"
proof -
  let ?refusal = "''The OPENAI_API_KEY environment variable is missing or empty''"
  have unset: "apiKey (CONFIG (environ world_nokey)) = None"
    by (simp add: world7_env cfg_unset)
  have thrown: "newOpenAI world_nokey (apiKey (CONFIG (environ world_nokey))) = Some ?refusal"
    by (simp add: world7_env client_unset)
  have nokey: "key_missing (apiKey (CONFIG (environ world_nokey)))"
    by (simp add: unset key_missing_def)
  have lib: "\<forall>message. newOpenAI world_nokey (apiKey (CONFIG (environ world_nokey))) = Some message
      \<longrightarrow> key_missing (apiKey (CONFIG (environ world_nokey)))"
    using nokey by simp
  have blank: "apiKey (CONFIG (environ world_blankkey)) = Some []"
    by (simp add: blank_env cfg_blank)
  have built_blank: "newOpenAI world_blankkey (apiKey (CONFIG (environ world_blankkey))) = None"
    by (simp add: blank_env client_blank)
  have nokey_blank: "key_missing (apiKey (CONFIG (environ world_blankkey)))"
    by (simp add: blank key_missing_def)
  have built_nodir: "newOpenAI world_nodir (apiKey (CONFIG (environ world_nodir))) = None"
    by (simp add: world7_env client7)
  have key_nodir: "\<not> key_missing (apiKey (CONFIG (environ world_nodir)))"
    by (simp add: world7_env key7)
  have built_failing: "newOpenAI world_failing (apiKey (CONFIG (environ world_failing))) = None"
    by (simp add: world7_env client7)
  have key_failing: "\<not> key_missing (apiKey (CONFIG (environ world_failing)))"
    by (simp add: world7_env key7)
  have pos: "0 < concurrency (CONFIG (environ world_failing))"
    by (simp add: world7_env cfg7)
  have fails: "attempt_fails world_failing (CONFIG (environ world_failing)) ''./images/a.jpg'' 3"
    by (simp add: attempt_fails_def try_block_def imageToBase64_def world_failing_def demo_world_def
        Let_def)
  note a = fatal_errors [where W = world_nokey and thrown = ?refusal,
      THEN conjunct1, rule_format, OF thrown]
  note b = fatal_errors [where W = world_blankkey,
      THEN conjunct2, THEN conjunct1, rule_format, OF conjI [OF built_blank nokey_blank]]
  note c = fatal_errors [where W = world_nodir and e = "''ENOENT: no such file or directory''",
      THEN conjunct2, THEN conjunct2, THEN conjunct1, rule_format,
      OF conjI [OF built_nodir conjI [OF key_nodir nodir_listing]]]
  note d = fatal_errors [where W = world_nokey,
      THEN conjunct2, THEN conjunct2, THEN conjunct2, THEN conjunct1, rule_format,
      OF disjI1 [OF nokey]]
  note g = fatal_errors [where W = world_nokey
        and out = "[Console (FatalError ?refusal), Exit 1]" and Q = None,
      THEN conjunct2, THEN conjunct2, THEN conjunct2, THEN conjunct2, THEN conjunct2,
      THEN conjunct1, rule_format, OF conjI [OF lib a]]
  note h = fatal_errors [where W = world_failing and names = names7,
      THEN conjunct2, THEN conjunct2, THEN conjunct2, THEN conjunct2, THEN conjunct2,
      THEN conjunct2, rule_format,
      OF conjI [OF built_failing conjI [OF key_failing conjI [OF failing_listing
        conjI [OF failing_writes pos]]]]]
  from d have d': "\<exists>evs message built.
         main world_nokey = Some (1, evs @ [Console (FatalError message), Exit 1], built)
         \<and> schedule evs = [] \<and> written evs = []"
    by blast
  show ?thesis
    apply (intro conjI)
    apply (rule unset thrown a d' g blank built_blank nokey_blank b built_nodir key_nodir nodir_listing c
        built_failing key_failing failing_listing pos fails h)+
    done
qed




end
